theory Spec2Isabelle
  imports Complex_Main
begin

section \<open>Data model (types.ts)\<close>

text \<open>
  A punch carries one of four kinds. \<open>calculateDailyHours\<close> is declared over \<open>any[]\<close> and
  switches on the \<open>type\<close> string without a default branch, so a record whose type is none of
  the four enum strings is a possible input; \<open>OTHER s\<close> stands for such a string.
\<close>

datatype PunchType = ENTRY | BREAK_START | BREAK_END | EXIT | OTHER string

text \<open>
  \<open>timestamp\<close> is epoch milliseconds. Timestamps are integral (they come from \<open>Date.now()\<close>
  and \<open>Date.getTime()\<close>); minute amounts are exact rationals, so the rounding of IEEE doubles
  is not part of this model.
\<close>

record PunchRecord =
  rec_id :: string
  timestamp :: int
  type :: PunchType
  rec_note :: "string option"

record DailyStats =
  total :: rat
  break :: rat

section \<open>Arrays\<close>

text \<open>
  \<open>Array.prototype.sort\<close> works in place, so an array is an address into a store and every
  function that receives an array returns the store it leaves behind. The array at address
  \<open>a\<close> is \<open>h ! a\<close>; a new array gets the next free address. The record objects themselves
  are never written to by the functions below, so an array holds record values.
\<close>

type_synonym addr = nat
type_synonym heap = "PunchRecord list list"

definition alloc :: "PunchRecord list \<Rightarrow> heap \<Rightarrow> addr \<times> heap" where
  "alloc xs h = (length h, h @ [xs])"

text \<open>
  \<open>arr.sort((a, b) => a.timestamp - b.timestamp)\<close>: on integral timestamps the comparator
  is a consistent ordering and the sort is stable (ECMAScript 2019), which is what
  \<open>sort_key\<close> computes.
\<close>

definition sortByTimestamp :: "addr \<Rightarrow> heap \<Rightarrow> heap" where
  "sortByTimestamp a h = h[a := sort_key timestamp (h ! a)]"

section \<open>Daily aggregator (calculateDailyHours)\<close>

text \<open>The four \<open>let\<close> variables of the function.\<close>

record DailyLoop =
  totalMinutes :: rat
  breakMinutes :: rat
  entryTime :: "int option"
  breakStartTime :: "int option"

definition dailyInit :: DailyLoop where
  "dailyInit = \<lparr>totalMinutes = 0, breakMinutes = 0, entryTime = None, breakStartTime = None\<rparr>"

text \<open>
  \<open>if (entryTime)\<close> on a \<open>number | null\<close>: \<open>null\<close> is falsy and so is the number \<open>0\<close>.
\<close>

definition truthy :: "int option \<Rightarrow> bool" where
  "truthy v = (case v of None \<Rightarrow> False | Some t \<Rightarrow> t \<noteq> 0)"

text \<open>
  \<open>(record.timestamp - slot) / 60000\<close>; the subtraction reads \<open>null\<close> as 0, a case the
  guards never let through.
\<close>

definition minutesBetween :: "int \<Rightarrow> int option \<Rightarrow> rat" where
  "minutesBetween t v = (case v of None \<Rightarrow> of_int t / 60000 | Some t0 \<Rightarrow> of_int (t - t0) / 60000)"

text \<open>The body of the \<open>forEach\<close> callback: one \<open>switch\<close> case per equation, no default.\<close>

fun forEachBody :: "DailyLoop \<Rightarrow> PunchRecord \<Rightarrow> DailyLoop" where
  "forEachBody s r =
     (case type r of
        ENTRY \<Rightarrow> s\<lparr>entryTime := Some (timestamp r)\<rparr>
      | BREAK_START \<Rightarrow>
          (let s1 = s\<lparr>breakStartTime := Some (timestamp r)\<rparr>
           in if truthy (entryTime s1)
              then s1\<lparr>totalMinutes := totalMinutes s1 + minutesBetween (timestamp r) (entryTime s1),
                      entryTime := None\<rparr>
              else s1)
      | BREAK_END \<Rightarrow>
          (let s1 = (if truthy (breakStartTime s)
                     then s\<lparr>breakMinutes := breakMinutes s + minutesBetween (timestamp r) (breakStartTime s),
                             breakStartTime := None\<rparr>
                     else s)
           in s1\<lparr>entryTime := Some (timestamp r)\<rparr>)
      | EXIT \<Rightarrow>
          (if truthy (entryTime s)
           then s\<lparr>totalMinutes := totalMinutes s + minutesBetween (timestamp r) (entryTime s),
                   entryTime := None\<rparr>
           else s)
      | OTHER x \<Rightarrow> s)"

definition dailyResult :: "DailyLoop \<Rightarrow> DailyStats" where
  "dailyResult s = \<lparr>total = totalMinutes s, break = breakMinutes s\<rparr>"

definition calculateDailyHours :: "addr \<Rightarrow> heap \<Rightarrow> DailyStats \<times> heap" where
  "calculateDailyHours records h =
     (if length (h ! records) = 0 then (\<lparr>total = 0, break = 0\<rparr>, h)
      else let h1 = sortByTimestamp records h
           in (dailyResult (foldl forEachBody dailyInit (h1 ! records)), h1))"

text \<open>
  The value a call returns when it is handed an array holding \<open>rs\<close> (the spec's
  \<open>computeDaily\<close>).
\<close>

definition computeDaily :: "PunchRecord list \<Rightarrow> DailyStats" where
  "computeDaily rs = fst (calculateDailyHours 0 [rs])"

section \<open>The host: ECMAScript time values, local time and formatting\<close>

text \<open>
  The functions below call the \<open>Date\<close> object of the JavaScript runtime. Its arithmetic is
  fixed by ECMA-262 (section "Date Objects") and is written out here under the names the
  standard uses. What the standard leaves to the host is a parameter: the offset of the
  local time zone, in milliseconds, at a UTC instant (\<open>tzaUTC\<close>, the standard's
  \<open>LocalTZA(t, true)\<close>) and at a local time (\<open>tzaLocal\<close>, \<open>LocalTZA(t, false)\<close>), and
  the text that \<open>toLocaleDateString()\<close> without arguments produces in the host's default
  locale for a local year, month (0 to 11) and day of month (\<open>localeDate\<close>).
\<close>

record Host =
  tzaUTC :: "int \<Rightarrow> int"
  tzaLocal :: "int \<Rightarrow> int"
  localeDate :: "int \<Rightarrow> int \<Rightarrow> int \<Rightarrow> string"

definition msPerDay :: int where
  "msPerDay = 86400000"

definition Day :: "int \<Rightarrow> int" where
  "Day t = t div msPerDay"

definition DaysInYear :: "int \<Rightarrow> int" where
  "DaysInYear y =
     (if y mod 4 \<noteq> 0 then 365
      else if y mod 100 \<noteq> 0 then 366
      else if y mod 400 \<noteq> 0 then 365
      else 366)"

definition DayFromYear :: "int \<Rightarrow> int" where
  "DayFromYear y = 365 * (y - 1970) + (y - 1969) div 4 - (y - 1901) div 100 + (y - 1601) div 400"

text \<open>
  \<open>YearFromTime(t)\<close> is the largest \<open>y\<close> with \<open>DayFromYear y \<le> Day t\<close>. It is found by
  stepping down from a year that is not too small, with as many steps allowed as the start
  can be away from the answer (\<open>YearFromDay_largest\<close> below: the result is that year, for
  every day).
\<close>

fun yearSearch :: "nat \<Rightarrow> int \<Rightarrow> int \<Rightarrow> int" where
  "yearSearch 0 y d = y"
| "yearSearch (Suc n) y d = (if DayFromYear y \<le> d then y else yearSearch n (y - 1) d)"

definition YearFromDay :: "int \<Rightarrow> int" where
  "YearFromDay d =
     (if 0 \<le> d then yearSearch (nat (d div 365) + 1) (1970 + d div 365) d
      else yearSearch (nat ((- d) div 365) + 1) 1969 d)"

definition YearFromTime :: "int \<Rightarrow> int" where
  "YearFromTime t = YearFromDay (Day t)"

definition InLeapYear :: "int \<Rightarrow> int" where
  "InLeapYear t = (if DaysInYear (YearFromTime t) = 366 then 1 else 0)"

definition DayWithinYear :: "int \<Rightarrow> int" where
  "DayWithinYear t = Day t - DayFromYear (YearFromTime t)"

definition MonthFromTime :: "int \<Rightarrow> int" where
  "MonthFromTime t =
     (let d = DayWithinYear t; leap = InLeapYear t
      in if d < 31 then 0
         else if d < 59 + leap then 1
         else if d < 90 + leap then 2
         else if d < 120 + leap then 3
         else if d < 151 + leap then 4
         else if d < 181 + leap then 5
         else if d < 212 + leap then 6
         else if d < 243 + leap then 7
         else if d < 273 + leap then 8
         else if d < 304 + leap then 9
         else if d < 334 + leap then 10
         else 11)"

definition DateFromTime :: "int \<Rightarrow> int" where
  "DateFromTime t =
     (let d = DayWithinYear t; leap = InLeapYear t; m = MonthFromTime t
      in if m = 0 then d + 1
         else if m = 1 then d - 30
         else if m = 2 then d - 58 - leap
         else if m = 3 then d - 89 - leap
         else if m = 4 then d - 119 - leap
         else if m = 5 then d - 150 - leap
         else if m = 6 then d - 180 - leap
         else if m = 7 then d - 211 - leap
         else if m = 8 then d - 242 - leap
         else if m = 9 then d - 272 - leap
         else if m = 10 then d - 303 - leap
         else d - 333 - leap)"

definition HourFromTime :: "int \<Rightarrow> int" where
  "HourFromTime t = (t div 3600000) mod 24"

definition MinFromTime :: "int \<Rightarrow> int" where
  "MinFromTime t = (t div 60000) mod 60"

text \<open>Days from 1 January to the first of month \<open>mn\<close> (0 to 11) in a year of the given kind.\<close>

definition daysBeforeMonth :: "int \<Rightarrow> int \<Rightarrow> int" where
  "daysBeforeMonth leap mn =
     (if mn = 0 then 0
      else if mn = 1 then 31
      else if mn = 2 then 59 + leap
      else if mn = 3 then 90 + leap
      else if mn = 4 then 120 + leap
      else if mn = 5 then 151 + leap
      else if mn = 6 then 181 + leap
      else if mn = 7 then 212 + leap
      else if mn = 8 then 243 + leap
      else if mn = 9 then 273 + leap
      else if mn = 10 then 304 + leap
      else 334 + leap)"

text \<open>
  \<open>MakeDay(year, month, date)\<close>: the day number of the first of month \<open>month mod 12\<close> in
  year \<open>year + floor(month / 12)\<close>, plus \<open>date - 1\<close>; months and dates out of range carry
  over, which is what makes day 0 of the next month the last day of this one.
\<close>

definition MakeDay :: "int \<Rightarrow> int \<Rightarrow> int \<Rightarrow> int" where
  "MakeDay year month date =
     (let ym = year + month div 12; mn = month mod 12
      in DayFromYear ym + daysBeforeMonth (if DaysInYear ym = 366 then 1 else 0) mn + date - 1)"

text \<open>A \<open>Date\<close> object holds a time value or \<open>NaN\<close> (an invalid date): \<open>None\<close> is \<open>NaN\<close>.\<close>

type_synonym Date = "int option"

definition TimeClip :: "int \<Rightarrow> Date" where
  "TimeClip t = (if \<bar>t\<bar> > 8640000000000000 then None else Some t)"

definition LocalTime :: "Host \<Rightarrow> int \<Rightarrow> int" where
  "LocalTime host t = t + tzaUTC host t"

definition UTC :: "Host \<Rightarrow> int \<Rightarrow> int" where
  "UTC host t = t - tzaLocal host t"

text \<open>\<open>new Date(value)\<close> for a number.\<close>

definition newDate :: "int \<Rightarrow> Date" where
  "newDate v = TimeClip v"

text \<open>
  \<open>new Date(year, month, date)\<close>: local midnight of that day. The constructor reads a year
  from 0 to 99 as 1900 + year.
\<close>

definition newDateYMD :: "Host \<Rightarrow> int \<Rightarrow> int \<Rightarrow> int \<Rightarrow> Date" where
  "newDateYMD host year month date =
     (let yr = (if 0 \<le> year \<and> year \<le> 99 then 1900 + year else year);
          finalDate = MakeDay yr month date * msPerDay
      in TimeClip (UTC host finalDate))"

text \<open>The getters return \<open>NaN\<close> on an invalid date.\<close>

definition getFullYear :: "Host \<Rightarrow> Date \<Rightarrow> int option" where
  "getFullYear host d = map_option (\<lambda>t. YearFromTime (LocalTime host t)) d"

definition getMonth :: "Host \<Rightarrow> Date \<Rightarrow> int option" where
  "getMonth host d = map_option (\<lambda>t. MonthFromTime (LocalTime host t)) d"

definition getDate :: "Host \<Rightarrow> Date \<Rightarrow> int option" where
  "getDate host d = map_option (\<lambda>t. DateFromTime (LocalTime host t)) d"

text \<open>\<open>===\<close> on two numbers: \<open>NaN\<close> equals nothing, itself included.\<close>

definition strictEq :: "int option \<Rightarrow> int option \<Rightarrow> bool" where
  "strictEq a b = (case a of None \<Rightarrow> False | Some x \<Rightarrow> b = Some x)"

subsection \<open>Text\<close>

definition digitChar :: "nat \<Rightarrow> char" where
  "digitChar n = ''0123456789'' ! n"

fun digits :: "nat \<Rightarrow> string" where
  "digits n = (if n < 10 then [digitChar n] else digits (n div 10) @ [digitChar (n mod 10)])"

declare digits.simps [simp del]

text \<open>\<open>Number.prototype.toString\<close> on an integer (below the magnitude where exponents appear).\<close>

definition toString :: "int \<Rightarrow> string" where
  "toString n = (if n < 0 then CHR ''-'' # digits (nat (- n)) else digits (nat n))"

text \<open>\<open>s.padStart(2, '0')\<close>.\<close>

definition padStart2 :: "string \<Rightarrow> string" where
  "padStart2 s = replicate (2 - length s) CHR ''0'' @ s"

text \<open>
  \<open>toLocaleDateString()\<close> in the host's default locale, \<open>toLocaleDateString('pt-BR')\<close>
  (\<open>dd/MM/yyyy\<close>) and \<open>toLocaleTimeString('pt-BR', {hour: '2-digit', minute: '2-digit'})\<close>
  (\<open>HH:mm\<close> on the 24-hour clock), each on the local time of the date.
\<close>

definition toLocaleDateString :: "Host \<Rightarrow> Date \<Rightarrow> string" where
  "toLocaleDateString host d =
     (case d of
        None \<Rightarrow> ''Invalid Date''
      | Some t \<Rightarrow> (let lt = LocalTime host t
                  in localeDate host (YearFromTime lt) (MonthFromTime lt) (DateFromTime lt)))"

definition toLocaleDateString_ptBR :: "Host \<Rightarrow> Date \<Rightarrow> string" where
  "toLocaleDateString_ptBR host d =
     (case d of
        None \<Rightarrow> ''Invalid Date''
      | Some t \<Rightarrow> (let lt = LocalTime host t
                  in padStart2 (toString (DateFromTime lt)) @ ''/'' @
                     padStart2 (toString (MonthFromTime lt + 1)) @ ''/'' @
                     toString (YearFromTime lt)))"

definition toLocaleTimeString_ptBR :: "Host \<Rightarrow> Date \<Rightarrow> string" where
  "toLocaleTimeString_ptBR host d =
     (case d of
        None \<Rightarrow> ''Invalid Date''
      | Some t \<Rightarrow> (let lt = LocalTime host t
                  in padStart2 (toString (HourFromTime lt)) @ '':'' @
                     padStart2 (toString (MinFromTime lt))))"

section \<open>minutesToReadable\<close>

text \<open>
  \<open>Math.floor(Math.abs(mins) / 60)\<close> hours and \<open>Math.floor(Math.abs(mins) % 60)\<close>
  minutes, for the parameter \<open>totalMinutes\<close> (here \<open>mins\<close>); the remainder of a
  non-negative number by 60 is what is left after taking out whole sixties.
\<close>

definition minutesToReadable :: "rat \<Rightarrow> string" where
  "minutesToReadable mins =
     (let hours = \<lfloor>\<bar>mins\<bar> / 60\<rfloor>;
          minutes = \<lfloor>\<bar>mins\<bar> - 60 * of_int \<lfloor>\<bar>mins\<bar> / 60\<rfloor>\<rfloor>;
          sign = (if mins < 0 then ''-'' else [])
      in sign @ toString hours @ ''h '' @ toString minutes @ ''m'')"

section \<open>Monthly aggregator (calculateMonthlyStats)\<close>

record MonthlyStats =
  totalWorked :: rat
  totalBreak :: rat
  balance :: rat
  daysWorkedCount :: nat

text \<open>The filter callback: the record's local month and year are the target's.\<close>

definition inTargetMonth :: "Host \<Rightarrow> int option \<Rightarrow> int option \<Rightarrow> PunchRecord \<Rightarrow> bool" where
  "inTargetMonth host targetMonth targetYear r =
     (let d = newDate (timestamp r)
      in strictEq (getMonth host d) targetMonth \<and> strictEq (getFullYear host d) targetYear)"

text \<open>
  \<open>days\<close> is an object used as a dictionary from the date text to an array; its values are
  enumerated in the order in which the keys were first written, so it is a list of pairs
  in that order. One step of the grouping loop: create the entry if the key is new, then
  push the record onto the key's array. (The keys are date texts: none of them is the name
  of a property that every object inherits, and if they were canonical array indices the
  enumeration would be by number, which changes no sum.)
\<close>

type_synonym days = "(string \<times> PunchRecord list) list"

definition pushDay :: "Host \<Rightarrow> days \<Rightarrow> PunchRecord \<Rightarrow> days" where
  "pushDay host days r =
     (let dayKey = toLocaleDateString host (newDate (timestamp r));
          days1 = (if map_of days dayKey = None then days @ [(dayKey, [])] else days)
      in map (\<lambda>(k, g). if k = dayKey then (k, g @ [r]) else (k, g)) days1)"

text \<open>The three counters of the function.\<close>

record MonthLoop =
  mTotalWorked :: rat
  mTotalBreak :: rat
  mDaysWorkedCount :: nat

definition monthInit :: MonthLoop where
  "monthInit = \<lparr>mTotalWorked = 0, mTotalBreak = 0, mDaysWorkedCount = 0\<rparr>"

definition addDay :: "MonthLoop \<Rightarrow> DailyStats \<Rightarrow> MonthLoop" where
  "addDay acc stats =
     \<lparr>mTotalWorked = mTotalWorked acc + total stats,
      mTotalBreak = mTotalBreak acc + break stats,
      mDaysWorkedCount = (if total stats > 0 then mDaysWorkedCount acc + 1 else mDaysWorkedCount acc)\<rparr>"

text \<open>
  \<open>Object.values(days).forEach(...)\<close>. The arrays of \<open>days\<close> are created by this call and
  nothing else refers to them; each enters the store when it is handed to
  \<open>calculateDailyHours\<close>, which sorts it in place.
\<close>

fun daysLoop :: "PunchRecord list list \<Rightarrow> MonthLoop \<Rightarrow> heap \<Rightarrow> MonthLoop \<times> heap" where
  "daysLoop [] acc h = (acc, h)"
| "daysLoop (dayRecords # rest) acc h =
     (let (a, h1) = alloc dayRecords h;
          (stats, h2) = calculateDailyHours a h1
      in daysLoop rest (addDay acc stats) h2)"

text \<open>The grouping loop \<open>monthRecords.forEach(...)\<close>, started on the empty object.\<close>

definition groupByDayKey :: "Host \<Rightarrow> PunchRecord list \<Rightarrow> days" where
  "groupByDayKey host monthRecords = foldl (pushDay host) [] monthRecords"

definition calculateMonthlyStats ::
    "Host \<Rightarrow> addr \<Rightarrow> Date \<Rightarrow> rat \<Rightarrow> heap \<Rightarrow> MonthlyStats \<times> heap" where
  "calculateMonthlyStats host records currentMonthDate dailyWorkload h =
     (let targetMonth = getMonth host currentMonthDate;
          targetYear = getFullYear host currentMonthDate;
          monthRecords = filter (inTargetMonth host targetMonth targetYear) (h ! records);
          days = groupByDayKey host monthRecords;
          (acc, h1) = daysLoop (map snd days) monthInit h;
          balance = mTotalWorked acc - of_nat (mDaysWorkedCount acc) * dailyWorkload
      in (\<lparr>totalWorked = mTotalWorked acc, totalBreak = mTotalBreak acc,
           balance = balance, daysWorkedCount = mDaysWorkedCount acc\<rparr>, h1))"

definition computeMonthly :: "Host \<Rightarrow> PunchRecord list \<Rightarrow> Date \<Rightarrow> rat \<Rightarrow> MonthlyStats" where
  "computeMonthly host rs referenceDate dailyTarget =
     fst (calculateMonthlyStats host 0 referenceDate dailyTarget [rs])"

section \<open>Day-row reconstructor (groupRecordsByDay)\<close>

record DayRow =
  day :: string
  dateFull :: string
  entrada :: string
  almocoSaida :: string
  almocoVolta :: string
  saida :: string
  totalHoras :: string

text \<open>The filter callback of the loop body, for day \<open>i\<close>.\<close>

definition onDay :: "Host \<Rightarrow> int \<Rightarrow> int \<Rightarrow> int \<Rightarrow> PunchRecord \<Rightarrow> bool" where
  "onDay host i targetMonth targetYear r =
     (let d = newDate (timestamp r)
      in getDate host d = Some i \<and> getMonth host d = Some targetMonth \<and>
         getFullYear host d = Some targetYear)"

text \<open>\<open>x ? new Date(x.timestamp).toLocaleTimeString('pt-BR', ...) : ''\<close> for the result of a \<open>find\<close>.\<close>

definition timeCell :: "Host \<Rightarrow> PunchRecord option \<Rightarrow> string" where
  "timeCell host x =
     (case x of None \<Rightarrow> [] | Some r \<Rightarrow> toLocaleTimeString_ptBR host (newDate (timestamp r)))"

text \<open>One pass of the \<open>for\<close> loop: the row that is pushed, and the store afterwards.\<close>

definition dayRow :: "Host \<Rightarrow> addr \<Rightarrow> int \<Rightarrow> int \<Rightarrow> int \<Rightarrow> heap \<Rightarrow> DayRow \<times> heap" where
  "dayRow host records targetMonth targetYear i h =
     (let dayDate = newDateYMD host targetYear targetMonth i;
          (dayRecords, h1) = alloc (filter (onDay host i targetMonth targetYear) (h ! records)) h;
          h2 = sortByTimestamp dayRecords h1;
          entradaRec = find (\<lambda>r. type r = ENTRY) (h2 ! dayRecords);
          almocoSaidaRec = find (\<lambda>r. type r = BREAK_START) (h2 ! dayRecords);
          almocoVoltaRec = find (\<lambda>r. type r = BREAK_END) (h2 ! dayRecords);
          saidaRec = find (\<lambda>r. type r = EXIT) (h2 ! dayRecords);
          (stats, h3) = calculateDailyHours dayRecords h2
      in (\<lparr>day = padStart2 (toString i),
           dateFull = toLocaleDateString_ptBR host dayDate,
           entrada = timeCell host entradaRec,
           almocoSaida = timeCell host almocoSaidaRec,
           almocoVolta = timeCell host almocoVoltaRec,
           saida = timeCell host saidaRec,
           totalHoras = minutesToReadable (total stats)\<rparr>, h3))"

fun rowsLoop :: "Host \<Rightarrow> addr \<Rightarrow> int \<Rightarrow> int \<Rightarrow> int list \<Rightarrow> heap \<Rightarrow> DayRow list \<times> heap" where
  "rowsLoop host records targetMonth targetYear [] h = ([], h)"
| "rowsLoop host records targetMonth targetYear (i # is) h =
     (let (row, h1) = dayRow host records targetMonth targetYear i h;
          (rows, h2) = rowsLoop host records targetMonth targetYear is h1
      in (row # rows, h2))"

text \<open>
  \<open>for (let i = 1; i <= daysInMonth; i++)\<close>: the loop runs over 1 to \<open>daysInMonth\<close>, and
  not at all when \<open>daysInMonth\<close> is \<open>NaN\<close>.
\<close>

definition groupRecordsByDay :: "Host \<Rightarrow> addr \<Rightarrow> int \<Rightarrow> int \<Rightarrow> heap \<Rightarrow> DayRow list \<times> heap" where
  "groupRecordsByDay host records targetMonth targetYear h =
     (case getDate host (newDateYMD host targetYear (targetMonth + 1) 0) of
        None \<Rightarrow> ([], h)
      | Some daysInMonth \<Rightarrow> rowsLoop host records targetMonth targetYear [1..daysInMonth] h)"

definition buildMonthRows :: "Host \<Rightarrow> PunchRecord list \<Rightarrow> int \<Rightarrow> int \<Rightarrow> DayRow list" where
  "buildMonthRows host rs month year = fst (groupRecordsByDay host 0 month year [rs])"

section \<open>The calls as values\<close>

text \<open>
  Names for parts of the functions above, and the results of \<open>calculateMonthlyStats\<close> and
  of one pass of the row loop written over the contents of the caller's array
  (\<open>calculateMonthlyStats_eq\<close> and \<open>dayRow_eq\<close> below prove that the calls return exactly
  these): the records that pass the month filter, the key under which the grouping loop
  files a record, the monthly result, a row, and the loop bound of the row builder.
\<close>

definition monthRecordsOf :: "Host \<Rightarrow> PunchRecord list \<Rightarrow> Date \<Rightarrow> PunchRecord list" where
  "monthRecordsOf host rs d =
     filter (inTargetMonth host (getMonth host d) (getFullYear host d)) rs"

definition dayKey :: "Host \<Rightarrow> PunchRecord \<Rightarrow> string" where
  "dayKey host r = toLocaleDateString host (newDate (timestamp r))"

definition monthlyOf :: "Host \<Rightarrow> PunchRecord list \<Rightarrow> Date \<Rightarrow> rat \<Rightarrow> MonthlyStats" where
  "monthlyOf host rs d w =
     (let acc = foldl addDay monthInit
                  (map computeDaily (map snd (groupByDayKey host (monthRecordsOf host rs d))))
      in \<lparr>totalWorked = mTotalWorked acc, totalBreak = mTotalBreak acc,
          balance = mTotalWorked acc - of_nat (mDaysWorkedCount acc) * w,
          daysWorkedCount = mDaysWorkedCount acc\<rparr>)"

definition rowOf :: "Host \<Rightarrow> PunchRecord list \<Rightarrow> int \<Rightarrow> int \<Rightarrow> int \<Rightarrow> DayRow" where
  "rowOf host rs m y i =
     (let sorted = sort_key timestamp (filter (onDay host i m y) rs)
      in \<lparr>day = padStart2 (toString i),
          dateFull = toLocaleDateString_ptBR host (newDateYMD host y m i),
          entrada = timeCell host (find (\<lambda>r. type r = ENTRY) sorted),
          almocoSaida = timeCell host (find (\<lambda>r. type r = BREAK_START) sorted),
          almocoVolta = timeCell host (find (\<lambda>r. type r = BREAK_END) sorted),
          saida = timeCell host (find (\<lambda>r. type r = EXIT) sorted),
          totalHoras = minutesToReadable (total (computeDaily (filter (onDay host i m y) rs)))\<rparr>)"

definition daysInMonthOf :: "Host \<Rightarrow> int \<Rightarrow> int \<Rightarrow> int option" where
  "daysInMonthOf host m y = getDate host (newDateYMD host y (m + 1) 0)"

section \<open>Reference definitions\<close>

subsection \<open>The state machine of the specification's table\<close>

text \<open>
  The specification describes the daily aggregator by a table over two pending slots,
  \<open>openEntry\<close> and \<open>openBreak\<close>, "both initially unset". \<open>tableStep\<close> is that table, row by
  row, with a slot being set when it holds a timestamp; durations are in minutes. A record
  of a type the table does not list has no effect.
\<close>

record TableState =
  tTotal :: rat
  tBreak :: rat
  openEntry :: "int option"
  openBreak :: "int option"

definition tableInit :: TableState where
  "tableInit = \<lparr>tTotal = 0, tBreak = 0, openEntry = None, openBreak = None\<rparr>"

fun tableStep :: "TableState \<Rightarrow> PunchRecord \<Rightarrow> TableState" where
  "tableStep s r =
     (case type r of
        ENTRY \<Rightarrow> s\<lparr>openEntry := Some (timestamp r)\<rparr>
      | BREAK_START \<Rightarrow>
          (let s1 = (case openEntry s of
                       Some e \<Rightarrow> s\<lparr>tTotal := tTotal s + of_int (timestamp r - e) / 60000,
                                  openEntry := None\<rparr>
                     | None \<Rightarrow> s)
           in s1\<lparr>openBreak := Some (timestamp r)\<rparr>)
      | BREAK_END \<Rightarrow>
          (let s1 = (case openBreak s of
                       Some b \<Rightarrow> s\<lparr>tBreak := tBreak s + of_int (timestamp r - b) / 60000,
                                  openBreak := None\<rparr>
                     | None \<Rightarrow> s)
           in s1\<lparr>openEntry := Some (timestamp r)\<rparr>)
      | EXIT \<Rightarrow>
          (case openEntry s of
             Some e \<Rightarrow> s\<lparr>tTotal := tTotal s + of_int (timestamp r - e) / 60000, openEntry := None\<rparr>
           | None \<Rightarrow> s)
      | OTHER x \<Rightarrow> s)"

definition tableDaily :: "PunchRecord list \<Rightarrow> DailyStats" where
  "tableDaily rs =
     (let s = foldl tableStep tableInit (sort_key timestamp rs)
      in \<lparr>total = tTotal s, break = tBreak s\<rparr>)"

subsection \<open>The length of a calendar month\<close>

text \<open>
  The specification's \<open>daysInMonth(month, year)\<close> is "the month's actual day count
  (28 to 31)": the Gregorian table, months numbered from 0 as \<open>getMonth()\<close> numbers them.
\<close>

definition daysInMonth :: "int \<Rightarrow> int \<Rightarrow> int" where
  "daysInMonth month year =
     (if month = 1 then (if DaysInYear year = 366 then 29 else 28)
      else if month = 3 \<or> month = 5 \<or> month = 8 \<or> month = 10 then 30
      else 31)"

text \<open>
  The host turns local midnight of day number \<open>dayNo\<close> into a valid time value whose local
  date is that same day. This holds for every fixed offset and, for a zone with daylight
  saving, wherever midnight is not skipped to another date.
\<close>

definition keepsLocalDay :: "Host \<Rightarrow> int \<Rightarrow> bool" where
  "keepsLocalDay host dayNo =
     (let t = UTC host (dayNo * msPerDay)
      in \<bar>t\<bar> \<le> 8640000000000000 \<and> Day (LocalTime host t) = dayNo)"

subsection \<open>The earliest punch of a type\<close>



subsection \<open>Local calendar days\<close>

text \<open>
  The local calendar day of a time value: the year, month (0 to 11) and day of month that
  \<open>getFullYear\<close>, \<open>getMonth\<close> and \<open>getDate\<close> return for it; and the host's date text as
  a function of the local calendar day.
\<close>

definition localDate :: "Host \<Rightarrow> int \<Rightarrow> int \<times> int \<times> int" where
  "localDate host t =
     (let lt = LocalTime host t in (YearFromTime lt, MonthFromTime lt, DateFromTime lt))"

definition dateText :: "Host \<Rightarrow> int \<times> int \<times> int \<Rightarrow> string" where
  "dateText host ymd = (case ymd of (y, m, d) \<Rightarrow> localeDate host y m d)"

text \<open>
  A record lies in the local month and year of the reference date (none does when the
  reference date, or the record's own date, is invalid).
\<close>

definition inLocalMonthOf :: "Host \<Rightarrow> Date \<Rightarrow> PunchRecord \<Rightarrow> bool" where
  "inLocalMonthOf host referenceDate r =
     (case (referenceDate, newDate (timestamp r)) of
        (Some t0, Some t) \<Rightarrow>
          fst (localDate host t) = fst (localDate host t0) \<and>
          fst (snd (localDate host t)) = fst (snd (localDate host t0))
      | _ \<Rightarrow> False)"

text \<open>
  The host's default locale writes different days of the records at hand differently. Every
  numeric day-month-year format does; the code relies on it by using the text as the key.
\<close>

definition datesDistinguished :: "Host \<Rightarrow> PunchRecord list \<Rightarrow> bool" where
  "datesDistinguished host ms = inj_on (dateText host) (localDate host ` timestamp ` set ms)"

text \<open>Two records lie in one array of \<open>days\<close>.\<close>

definition sameGroup :: "days \<Rightarrow> PunchRecord \<Rightarrow> PunchRecord \<Rightarrow> bool" where
  "sameGroup days r1 r2 = list_ex (\<lambda>g. r1 \<in> set g \<and> r2 \<in> set g) (map snd days)"

text \<open>
  The monthly aggregator as the specification words it: the records of the target local
  month and year, grouped by local calendar day; the daily aggregator run on each group; the totals summed;
  a day counted when its total is greater than zero; the target charged once per counted
  day.
\<close>

definition recordsOn :: "Host \<Rightarrow> PunchRecord list \<Rightarrow> int \<times> int \<times> int \<Rightarrow> PunchRecord list" where
  "recordsOn host ms d = filter (\<lambda>r. localDate host (timestamp r) = d) ms"

definition monthlyByLocalDay :: "Host \<Rightarrow> PunchRecord list \<Rightarrow> Date \<Rightarrow> rat \<Rightarrow> MonthlyStats" where
  "monthlyByLocalDay host rs referenceDate dailyTarget =
     (let ms = filter (inLocalMonthOf host referenceDate) rs;
          dates = localDate host ` timestamp ` set ms;
          worked = (\<lambda>d. total (computeDaily (recordsOn host ms d)));
          paused = (\<lambda>d. break (computeDaily (recordsOn host ms d)));
          n = card {d \<in> dates. 0 < worked d}
      in \<lparr>totalWorked = sum worked dates, totalBreak = sum paused dates,
          balance = sum worked dates - of_nat n * dailyTarget, daysWorkedCount = n\<rparr>)"

section \<open>Invariants of the daily loop\<close>

text \<open>
  The loop variables read as a state of the table, and the condition under which the code
  and the table take the same step: no slot holds the timestamp 0.
\<close>

definition toTable :: "DailyLoop \<Rightarrow> TableState" where
  "toTable s = \<lparr>tTotal = totalMinutes s, tBreak = breakMinutes s,
               openEntry = entryTime s, openBreak = breakStartTime s\<rparr>"

definition slotsNonzero :: "DailyLoop \<Rightarrow> bool" where
  "slotsNonzero s = (entryTime s \<noteq> Some 0 \<and> breakStartTime s \<noteq> Some 0)"

text \<open>
  While the records are read in ascending order, a slot never holds a timestamp later than
  the record being read, and the two sums are not negative.
\<close>

definition slotsAtMost :: "int \<Rightarrow> DailyLoop \<Rightarrow> bool" where
  "slotsAtMost b s =
     ((case entryTime s of None \<Rightarrow> True | Some e \<Rightarrow> e \<le> b) \<and>
      (case breakStartTime s of None \<Rightarrow> True | Some e \<Rightarrow> e \<le> b) \<and>
      0 \<le> totalMinutes s \<and> 0 \<le> breakMinutes s)"


section \<open>Sample data\<close>

definition punch :: "string \<Rightarrow> int \<Rightarrow> PunchType \<Rightarrow> PunchRecord" where
  "punch i t k = \<lparr>rec_id = i, timestamp = t, type = k, rec_note = None\<rparr>"

text \<open>A host on UTC whose default locale writes dates as month/day/year.\<close>

definition utcHost :: Host where
  "utcHost = \<lparr>tzaUTC = (\<lambda>t. 0), tzaLocal = (\<lambda>t. 0),
              localeDate = (\<lambda>y m d. toString (m + 1) @ ''/'' @ toString d @ ''/'' @ toString y)\<rparr>"

text \<open>
  15, 16 and 20 November 2023 (UTC), stored newest first as the application keeps them:
  09:00 to 17:00 on the 15th; 09:00, a break from 13:00 and the exit at 17:00 on the 16th;
  an ENTRY at 09:00 and nothing else on the 20th.
\<close>

definition sampleRecords :: "PunchRecord list" where
  "sampleRecords =
     [punch ''f'' 1700470800000 ENTRY,
      punch ''e'' 1700154000000 EXIT,
      punch ''d'' 1700139600000 BREAK_START,
      punch ''c'' 1700125200000 ENTRY,
      punch ''b'' 1700067600000 EXIT,
      punch ''a'' 1700038800000 ENTRY]"




text \<open>
  A zone that skips a calendar day: the Line Islands went from UTC-10 to UTC+14 at the end
  of 30 December 1994, so 31 December 1994 has no local time there. A local time in the
  gap is read with the offset before the change.
\<close>

definition lineIslandsHost :: Host where
  "lineIslandsHost =
     \<lparr>tzaUTC = (\<lambda>t. if t < 788868000000 then - 36000000 else 50400000),
      tzaLocal = (\<lambda>t. if t < 788918400000 then - 36000000 else 50400000),
      localeDate = (\<lambda>y m d. toString (m + 1) @ ''/'' @ toString d @ ''/'' @ toString y)\<rparr>"

section \<open>The daily aggregator: what a call returns and what it leaves in the store\<close>

lemma computeDaily_eq:
  "computeDaily rs =
     (if rs = [] then \<lparr>total = 0, break = 0\<rparr>
      else dailyResult (foldl forEachBody dailyInit (sort_key timestamp rs)))"
  by (simp add: computeDaily_def calculateDailyHours_def sortByTimestamp_def Let_def)

lemma calculateDailyHours_fst:
  "a < length h \<Longrightarrow> fst (calculateDailyHours a h) = computeDaily (h ! a)"
  by (simp add: computeDaily_eq calculateDailyHours_def sortByTimestamp_def Let_def)

lemma calculateDailyHours_snd:
  "snd (calculateDailyHours a h) = h[a := sort_key timestamp (h ! a)]"
proof (cases "h ! a = []")
  case True
  then have "h[a := []] = h" by (metis list_update_id)
  with True show ?thesis by (simp add: calculateDailyHours_def)
next
  case False
  then show ?thesis by (simp add: calculateDailyHours_def sortByTimestamp_def Let_def)
qed

text \<open>
  The specification's examples (times of day as milliseconds after midnight): 09:00 to 17:00;
  09:00 to 18:00 with a break from 12:00 to 13:00; a lone ENTRY; two ENTRY punches before
  one EXIT, of which the later one counts.
\<close>

lemma specification_examples:
  "computeDaily [punch ''a'' 32400000 ENTRY, punch ''b'' 61200000 EXIT] = \<lparr>total = 480, break = 0\<rparr>"
  "computeDaily [punch ''a'' 32400000 ENTRY, punch ''b'' 43200000 BREAK_START,
                 punch ''c'' 46800000 BREAK_END, punch ''d'' 64800000 EXIT] = \<lparr>total = 480, break = 60\<rparr>"
  "computeDaily [punch ''a'' 32400000 ENTRY] = \<lparr>total = 0, break = 0\<rparr>"
  "computeDaily [punch ''a'' 28800000 ENTRY, punch ''b'' 32400000 ENTRY, punch ''c'' 61200000 EXIT]
     = \<lparr>total = 480, break = 0\<rparr>"
  by (simp_all add: computeDaily_eq punch_def dailyResult_def dailyInit_def truthy_def
        minutesBetween_def Let_def)

subsection \<open>Agreement with the table while no slot holds the timestamp 0\<close>

lemma forEachBody_table:
  assumes "slotsNonzero s" "timestamp r \<noteq> 0"
  shows "toTable (forEachBody s r) = tableStep (toTable s) r \<and> slotsNonzero (forEachBody s r)"
  using assms
  by (cases "type r")
     (auto simp: toTable_def slotsNonzero_def truthy_def minutesBetween_def Let_def
           split: option.splits)

lemma foldl_table:
  "slotsNonzero s \<Longrightarrow> \<forall>r\<in>set rs. timestamp r \<noteq> 0 \<Longrightarrow>
   toTable (foldl forEachBody s rs) = foldl tableStep (toTable s) rs"
proof (induction rs arbitrary: s)
  case Nil
  then show ?case by simp
next
  case (Cons r rs)
  have "toTable (forEachBody s r) = tableStep (toTable s) r" "slotsNonzero (forEachBody s r)"
    using forEachBody_table[of s r] Cons.prems by auto
  then show ?case using Cons by (simp del: forEachBody.simps tableStep.simps)
qed

lemma computeDaily_table:
  assumes "\<forall>r\<in>set rs. timestamp r \<noteq> 0"
  shows "computeDaily rs = tableDaily rs"
proof -
  have "toTable (foldl forEachBody dailyInit (sort_key timestamp rs))
        = foldl tableStep tableInit (sort_key timestamp rs)"
    using foldl_table[of dailyInit "sort_key timestamp rs"] assms
    by (simp add: slotsNonzero_def dailyInit_def toTable_def tableInit_def)
  then show ?thesis
    by (auto simp: computeDaily_eq tableDaily_def dailyResult_def toTable_def Let_def
                   tableInit_def
             dest: arg_cong[where f = tTotal] arg_cong[where f = tBreak])
qed

text \<open>
  C1. The claim: for every list of punch records the daily aggregator returns what one pass
  of the specification's table over the records sorted by timestamp returns. The code
  tests its two slots with \<open>if (entryTime)\<close> and \<open>if (breakStartTime)\<close>, which is false
  for the timestamp 0 as well as for \<open>null\<close>; on the list of an ENTRY at timestamp 0 and an
  EXIT at 60000 the table closes a work interval of one minute and the code returns zero.
  (\<open>computeDaily_table\<close> above: on lists without a timestamp 0 the two agree.)
\<close>

theorem C1_table_differs_at_timestamp_zero:
  "computeDaily [punch ''a'' 0 ENTRY, punch ''b'' 60000 EXIT] = \<lparr>total = 0, break = 0\<rparr> \<and>
   tableDaily [punch ''a'' 0 ENTRY, punch ''b'' 60000 EXIT] = \<lparr>total = 1, break = 0\<rparr>"
  by (simp add: computeDaily_eq dailyResult_def dailyInit_def truthy_def punch_def
                tableDaily_def tableInit_def)

subsection \<open>The totals are never negative\<close>

lemma forEachBody_slotsAtMost:
  assumes "slotsAtMost b s" "b \<le> timestamp r"
  shows "slotsAtMost (timestamp r) (forEachBody s r)"
  using assms
  by (cases "type r")
     (auto simp: slotsAtMost_def truthy_def minutesBetween_def Let_def split: option.splits)

lemma foldl_slotsAtMost:
  "sorted (map timestamp rs) \<Longrightarrow> \<forall>r\<in>set rs. b \<le> timestamp r \<Longrightarrow> slotsAtMost b s \<Longrightarrow>
   \<exists>c. slotsAtMost c (foldl forEachBody s rs)"
proof (induction rs arbitrary: s b)
  case Nil
  then show ?case by auto
next
  case (Cons r rs)
  have 1: "slotsAtMost (timestamp r) (forEachBody s r)"
    using forEachBody_slotsAtMost[of b s r] Cons.prems by simp
  have 2: "sorted (map timestamp rs)" "\<forall>x\<in>set rs. timestamp r \<le> timestamp x"
    using Cons.prems(1) by auto
  show ?case using Cons.IH[OF 2 1] by (simp del: forEachBody.simps)
qed

lemma computeDaily_nonneg: "0 \<le> total (computeDaily rs) \<and> 0 \<le> break (computeDaily rs)"
proof (cases "rs = []")
  case True
  then show ?thesis by (simp add: computeDaily_eq)
next
  case False
  let ?xs = "sort_key timestamp rs"
  have ne: "?xs \<noteq> []" using False by (metis length_sort length_0_conv)
  then obtain x xs where xs: "?xs = x # xs" by (cases ?xs) auto
  have srt: "sorted (map timestamp ?xs)" by simp
  have "\<forall>r\<in>set ?xs. timestamp x \<le> timestamp r"
    using srt unfolding xs by auto
  moreover have "slotsAtMost (timestamp x) dailyInit"
    by (simp add: slotsAtMost_def dailyInit_def)
  ultimately obtain c where "slotsAtMost c (foldl forEachBody dailyInit ?xs)"
    using foldl_slotsAtMost[OF srt] by blast
  then show ?thesis using False
    by (simp add: computeDaily_eq dailyResult_def slotsAtMost_def)
qed

subsection \<open>Records of an unrecognised type are passed over\<close>






text \<open>
  C10. The slots are tested by truthiness, so a slot holding the timestamp 0 counts as
  unset: an ENTRY at 0 followed by an EXIT at \<open>t > 0\<close> gives total 0 where the table
  gives \<open>t / 60000\<close> minutes, and a BREAK_START at 0 followed by a BREAK_END at
  \<open>t > 0\<close> gives break 0 where the table gives \<open>t / 60000\<close>.
\<close>

theorem C10_timestamp_zero_is_unset:
  assumes "type a = ENTRY" "timestamp a = 0" "type b = EXIT" "0 < timestamp b"
      and "type c = BREAK_START" "timestamp c = 0" "type d = BREAK_END" "0 < timestamp d"
  shows "computeDaily [a, b] = \<lparr>total = 0, break = 0\<rparr> \<and>
         tableDaily [a, b] = \<lparr>total = of_int (timestamp b) / 60000, break = 0\<rparr> \<and>
         computeDaily [c, d] = \<lparr>total = 0, break = 0\<rparr> \<and>
         tableDaily [c, d] = \<lparr>total = 0, break = of_int (timestamp d) / 60000\<rparr>"
  using assms
  by (simp add: computeDaily_eq dailyResult_def dailyInit_def truthy_def
                tableDaily_def tableInit_def)

theorem C10_witness:
  "computeDaily [punch ''a'' 0 ENTRY, punch ''b'' 28800000 EXIT] = \<lparr>total = 0, break = 0\<rparr> \<and>
   tableDaily [punch ''a'' 0 ENTRY, punch ''b'' 28800000 EXIT] = \<lparr>total = 480, break = 0\<rparr> \<and>
   computeDaily [punch ''c'' 0 BREAK_START, punch ''d'' 3600000 BREAK_END] = \<lparr>total = 0, break = 0\<rparr> \<and>
   tableDaily [punch ''c'' 0 BREAK_START, punch ''d'' 3600000 BREAK_END] = \<lparr>total = 0, break = 60\<rparr>"
  using C10_timestamp_zero_is_unset[of "punch ''a'' 0 ENTRY" "punch ''b'' 28800000 EXIT"
          "punch ''c'' 0 BREAK_START" "punch ''d'' 3600000 BREAK_END"]
  by (simp add: punch_def)

subsection \<open>A day that ends while a break is open\<close>

lemma open_break_lost:
  assumes "type a = ENTRY" "type b = BREAK_START" "type c = EXIT"
      and "timestamp a < timestamp b" "timestamp b < timestamp c" "timestamp a \<noteq> 0"
  shows "computeDaily [a, b, c] = \<lparr>total = of_int (timestamp b - timestamp a) / 60000, break = 0\<rparr>"
  using assms
  by (simp add: computeDaily_eq dailyResult_def dailyInit_def truthy_def minutesBetween_def Let_def)

lemma exit_leaves_break_slot:
  "type r = EXIT \<Longrightarrow> breakStartTime (forEachBody s r) = breakStartTime s \<and>
                      breakMinutes (forEachBody s r) = breakMinutes s"
  by simp

text \<open>
  C6. The claim: for ENTRY at \<open>t1\<close>, BREAK_START at \<open>t2\<close>, EXIT at \<open>t3\<close> with
  \<open>t1 < t2 < t3\<close> the result is total \<open>t2 - t1\<close> and break 0. The EXIT case never
  writes the break slot (\<open>exit_leaves_break_slot\<close>), and for \<open>t1 \<noteq> 0\<close> the result is as
  claimed (\<open>open_break_lost\<close>). For \<open>t1 = 0\<close> the BREAK_START finds the entry slot
  falsy and closes nothing: the total is 0, not \<open>t2 - t1\<close>.
\<close>

theorem C6_open_break_at_timestamp_zero:
  "computeDaily [punch ''a'' 0 ENTRY, punch ''b'' 60000 BREAK_START, punch ''c'' 120000 EXIT]
     = \<lparr>total = 0, break = 0\<rparr>"
  by (simp add: computeDaily_eq dailyResult_def dailyInit_def truthy_def punch_def Let_def)

section \<open>The store after each call\<close>

lemma computeDaily_sorted: "computeDaily (sort_key timestamp rs) = computeDaily rs"
proof -
  have "sort_key timestamp (sort_key timestamp rs) = sort_key timestamp rs"
    by (simp add: sort_key_id_if_sorted)
  moreover have "(sort_key timestamp rs = []) = (rs = [])"
    by (metis length_sort length_0_conv)
  ultimately show ?thesis by (simp add: computeDaily_eq del: forEachBody.simps)
qed

lemma alloc_daily:
  "calculateDailyHours (length h) (h @ [g]) = (computeDaily g, h @ [sort_key timestamp g])"
proof -
  have "fst (calculateDailyHours (length h) (h @ [g])) = computeDaily g"
    using calculateDailyHours_fst[of "length h" "h @ [g]"] by simp
  moreover have "snd (calculateDailyHours (length h) (h @ [g])) = h @ [sort_key timestamp g]"
    by (simp add: calculateDailyHours_snd)
  ultimately show ?thesis by (metis prod.collapse)
qed

lemma daysLoop_eq:
  "daysLoop gs acc h = (foldl addDay acc (map computeDaily gs), h @ map (sort_key timestamp) gs)"
proof (induction gs arbitrary: acc h)
  case Nil
  then show ?case by simp
next
  case (Cons g gs)
  show ?case by (simp add: alloc_def alloc_daily Cons)
qed

lemma calculateMonthlyStats_eq:
  "calculateMonthlyStats host a d w h =
     (monthlyOf host (h ! a) d w,
      h @ map (sort_key timestamp)
            (map snd (groupByDayKey host
               (filter (inTargetMonth host (getMonth host d) (getFullYear host d)) (h ! a)))))"
  by (simp add: calculateMonthlyStats_def monthlyOf_def monthRecordsOf_def daysLoop_eq Let_def)

lemma computeMonthly_eq: "computeMonthly host rs d w = monthlyOf host rs d w"
  by (simp add: computeMonthly_def calculateMonthlyStats_eq)

lemma dayRow_eq:
  "dayRow host a m y i h =
     (rowOf host (h ! a) m y i, h @ [sort_key timestamp (filter (onDay host i m y) (h ! a))])"
proof -
  let ?g = "filter (onDay host i m y) (h ! a)"
  have s: "sortByTimestamp (length h) (h @ [?g]) = h @ [sort_key timestamp ?g]"
    by (simp add: sortByTimestamp_def)
  have c: "calculateDailyHours (length h) (h @ [sort_key timestamp ?g])
           = (computeDaily ?g, h @ [sort_key timestamp ?g])"
    by (simp add: alloc_daily computeDaily_sorted sort_key_id_if_sorted)
  show ?thesis
    by (simp add: dayRow_def alloc_def s c rowOf_def Let_def)
qed

lemma rowsLoop_eq:
  "a < length h \<Longrightarrow>
   rowsLoop host a m y is h =
     (map (rowOf host (h ! a) m y) is,
      h @ map (\<lambda>i. sort_key timestamp (filter (onDay host i m y) (h ! a))) is)"
proof (induction "is" arbitrary: h)
  case Nil
  then show ?case by simp
next
  case (Cons i "is")
  let ?h1 = "h @ [sort_key timestamp (filter (onDay host i m y) (h ! a))]"
  have 1: "a < length ?h1" "?h1 ! a = h ! a" using Cons.prems by (simp_all add: nth_append)
  show ?case using Cons.IH[OF 1(1)] by (simp add: dayRow_eq 1(2))
qed

lemma groupRecordsByDay_eq:
  "a < length h \<Longrightarrow>
   groupRecordsByDay host a m y h =
     (case daysInMonthOf host m y of
        None \<Rightarrow> ([], h)
      | Some n \<Rightarrow> (map (rowOf host (h ! a) m y) [1..n],
                   h @ map (\<lambda>i. sort_key timestamp (filter (onDay host i m y) (h ! a))) [1..n]))"
  by (simp add: groupRecordsByDay_def daysInMonthOf_def rowsLoop_eq split: option.splits)

lemma buildMonthRows_eq:
  "buildMonthRows host rs m y =
     (case daysInMonthOf host m y of None \<Rightarrow> [] | Some n \<Rightarrow> map (rowOf host rs m y) [1..n])"
  by (simp add: buildMonthRows_def groupRecordsByDay_eq split: option.splits)

text \<open>
  C7. Each of the three aggregators, called a second time on the same array in the store
  the first call left behind, returns what the first call returned.
\<close>

theorem C7_same_output_twice:
  assumes "records < length h"
  shows "fst (calculateDailyHours records (snd (calculateDailyHours records h)))
           = fst (calculateDailyHours records h) \<and>
         fst (calculateMonthlyStats host records d w (snd (calculateMonthlyStats host records d w h)))
           = fst (calculateMonthlyStats host records d w h) \<and>
         fst (groupRecordsByDay host records m y (snd (groupRecordsByDay host records m y h)))
           = fst (groupRecordsByDay host records m y h)"
proof -
  have 1: "fst (calculateDailyHours records (snd (calculateDailyHours records h)))
           = fst (calculateDailyHours records h)"
    using assms
    by (simp add: calculateDailyHours_snd calculateDailyHours_fst computeDaily_sorted)
  have 2: "fst (calculateMonthlyStats host records d w (snd (calculateMonthlyStats host records d w h)))
           = fst (calculateMonthlyStats host records d w h)"
    using assms by (simp add: calculateMonthlyStats_eq nth_append)
  have 3: "fst (groupRecordsByDay host records m y (snd (groupRecordsByDay host records m y h)))
           = fst (groupRecordsByDay host records m y h)"
    using assms by (simp add: groupRecordsByDay_eq nth_append split: option.splits)
  from 1 2 3 show ?thesis by simp
qed

theorem C7_witness:
  "fst (calculateDailyHours 0 (snd (calculateDailyHours 0 [sampleRecords])))
     = fst (calculateDailyHours 0 [sampleRecords]) \<and>
   fst (calculateMonthlyStats utcHost 0 (newDate 1700000000000) 480
          (snd (calculateMonthlyStats utcHost 0 (newDate 1700000000000) 480 [sampleRecords])))
     = fst (calculateMonthlyStats utcHost 0 (newDate 1700000000000) 480 [sampleRecords]) \<and>
   fst (groupRecordsByDay utcHost 0 10 2023 (snd (groupRecordsByDay utcHost 0 10 2023 [sampleRecords])))
     = fst (groupRecordsByDay utcHost 0 10 2023 [sampleRecords])"
  using C7_same_output_twice[of 0 "[sampleRecords]" utcHost "newDate 1700000000000" 480 10 2023]
  by simp

text \<open>
  C8. The claim: no aggregator changes the caller's array. \<open>calculateDailyHours\<close> calls
  \<open>records.sort(...)\<close> on its parameter, so the caller's array is sorted in place: an
  array holding an EXIT at 2 before an ENTRY at 1 holds them in the other order afterwards.
\<close>

theorem C8_daily_reorders_input:
  "snd (calculateDailyHours 0 [[punch ''b'' 2 EXIT, punch ''a'' 1 ENTRY]]) ! 0
     \<noteq> [punch ''b'' 2 EXIT, punch ''a'' 1 ENTRY]"
  by (simp add: calculateDailyHours_snd punch_def)

text \<open>
  C8, as the code has it: \<open>calculateMonthlyStats\<close> and \<open>groupRecordsByDay\<close> leave every
  array that existed before the call as it was (they sort only arrays they created);
  \<open>calculateDailyHours\<close> leaves the caller's array holding the same records sorted
  ascending by timestamp, records of equal timestamp in their former order, and changes no
  other array.
\<close>

theorem C8_only_daily_sorts_the_input:
  assumes "records < length h"
  shows "take (length h) (snd (calculateMonthlyStats host records d w h)) = h \<and>
         take (length h) (snd (groupRecordsByDay host records m y h)) = h \<and>
         snd (calculateDailyHours records h) = h[records := sort_key timestamp (h ! records)]"
  using assms
  by (simp add: calculateMonthlyStats_eq groupRecordsByDay_eq calculateDailyHours_snd
           split: option.splits)

theorem C8_witness:
  "take 1 (snd (calculateMonthlyStats utcHost 0 (newDate 1700000000000) 480 [sampleRecords]))
     = [sampleRecords] \<and>
   take 1 (snd (groupRecordsByDay utcHost 0 10 2023 [sampleRecords])) = [sampleRecords] \<and>
   snd (calculateDailyHours 0 [sampleRecords]) = [rev sampleRecords]"
  using C8_only_daily_sorts_the_input[of 0 "[sampleRecords]" utcHost "newDate 1700000000000" 480 10 2023]
  by (simp add: sampleRecords_def punch_def)

section \<open>The calendar\<close>

lemma div_succ:
  fixes a k :: int
  assumes "0 < k"
  shows "(a + 1) div k = a div k + (if (a + 1) mod k = 0 then 1 else 0)"
proof -
  define q r where "q = a div k" and "r = a mod k"
  have a: "a = k * q + r" and r0: "0 \<le> r" and rk: "r < k"
    using assms by (simp_all add: q_def r_def)
  show ?thesis
  proof (cases "r + 1 = k")
    case True
    have e: "a + 1 = k * (q + 1) + 0" using a True by (simp add: algebra_simps)
    have "(a + 1) div k = q + 1" using int_div_pos_eq[OF e] assms by simp
    moreover have "(a + 1) mod k = 0" using int_mod_pos_eq[OF e] assms by simp
    ultimately show ?thesis by (simp add: q_def)
  next
    case False
    have e: "a + 1 = k * q + (r + 1)" using a by simp
    have b: "0 \<le> r + 1" "r + 1 < k" using r0 rk False by auto
    have "(a + 1) div k = q" using int_div_pos_eq[OF e b] .
    moreover have "(a + 1) mod k = r + 1" using int_mod_pos_eq[OF e b] .
    ultimately show ?thesis using r0 by (simp add: q_def)
  qed
qed

lemma mod_shift: "(y - k * c) mod k = y mod (k::int)"
proof -
  have "y - k * c = y + k * (- c)" by simp
  then show ?thesis by (metis mod_mult_self2)
qed

lemma div4: "(y - 1968) div 4 = (y - 1969) div 4 + (if y mod 4 = 0 then 1 else 0)" for y :: int
  using div_succ[of 4 "y - 1969"] mod_shift[of y 4 492] by simp

lemma div100: "(y - 1900) div 100 = (y - 1901) div 100 + (if y mod 100 = 0 then 1 else 0)" for y :: int
  using div_succ[of 100 "y - 1901"] mod_shift[of y 100 19] by simp

lemma div400: "(y - 1600) div 400 = (y - 1601) div 400 + (if y mod 400 = 0 then 1 else 0)" for y :: int
  using div_succ[of 400 "y - 1601"] mod_shift[of y 400 4] by simp

lemma mod_100_4: "y mod 100 = 0 \<Longrightarrow> y mod 4 = (0::int)"
  using mod_mod_cancel[of 4 100 y] by simp

lemma mod_400_100: "y mod 400 = 0 \<Longrightarrow> y mod 100 = (0::int)"
  using mod_mod_cancel[of 100 400 y] by simp

lemma DayFromYear_Suc: "DayFromYear (y + 1) = DayFromYear y + DaysInYear y"
proof -
  have "DayFromYear (y + 1) = 365 * (y - 1969) + (y - 1968) div 4 - (y - 1900) div 100 + (y - 1600) div 400"
    by (simp add: DayFromYear_def)
  then show ?thesis
    using mod_100_4[of y] mod_400_100[of y]
    by (auto simp: div4 div100 div400 DayFromYear_def DaysInYear_def)
qed

lemma DaysInYear_bounds: "365 \<le> DaysInYear y" "DaysInYear y \<le> 366"
  by (simp_all add: DaysInYear_def)

lemma DayFromYear_add_lower: "DayFromYear y + 365 * int n \<le> DayFromYear (y + int n)"
proof (induction n)
  case 0
  then show ?case by simp
next
  case (Suc n)
  have "y + int (Suc n) = (y + int n) + 1" by simp
  then have "DayFromYear (y + int (Suc n)) = DayFromYear (y + int n) + DaysInYear (y + int n)"
    using DayFromYear_Suc[of "y + int n"] by metis
  then show ?case using Suc DaysInYear_bounds(1)[of "y + int n"] by simp
qed

lemma DayFromYear_diff_lower:
  assumes "y \<le> z"
  shows "DayFromYear y + 365 * (z - y) \<le> DayFromYear z"
  using DayFromYear_add_lower[of y "nat (z - y)"] assms by simp

lemma DayFromYear_mono: "y \<le> z \<Longrightarrow> DayFromYear y \<le> DayFromYear z"
  using DayFromYear_diff_lower[of y z] by simp

lemma DayFromYear_1970: "DayFromYear 1970 = 0"
  by (simp add: DayFromYear_def)

lemma yearSearch_eq:
  assumes "DayFromYear Y \<le> d" "d < DayFromYear (Y + 1)"
  shows "Y \<le> y \<Longrightarrow> nat (y - Y) < n \<Longrightarrow> yearSearch n y d = Y"
proof (induction n arbitrary: y)
  case 0
  then show ?case by simp
next
  case (Suc n)
  show ?case
  proof (cases "DayFromYear y \<le> d")
    case True
    have "\<not> Y + 1 \<le> y"
    proof
      assume "Y + 1 \<le> y"
      then have "DayFromYear (Y + 1) \<le> DayFromYear y" by (rule DayFromYear_mono)
      with True assms(2) show False by simp
    qed
    with Suc.prems have "y = Y" by simp
    with True show ?thesis by simp
  next
    case False
    with assms(1) have "y \<noteq> Y" by auto
    with Suc.prems have "Y \<le> y - 1" "nat (y - 1 - Y) < n" by auto
    then have "yearSearch n (y - 1) d = Y" by (rule Suc.IH)
    with False show ?thesis by simp
  qed
qed

lemma YearFromDay_eq:
  assumes lo: "DayFromYear Y \<le> d" and hi: "d < DayFromYear (Y + 1)"
  shows "YearFromDay d = Y"
proof (cases "0 \<le> d")
  case True
  have Y1970: "1970 \<le> Y"
  proof (rule ccontr)
    assume "\<not> 1970 \<le> Y"
    then have "Y + 1 \<le> 1970" by simp
    then have "DayFromYear (Y + 1) \<le> DayFromYear 1970" by (rule DayFromYear_mono)
    with hi True show False by (simp add: DayFromYear_1970)
  qed
  have "365 * (Y - 1970) \<le> DayFromYear Y"
    using DayFromYear_diff_lower[OF Y1970] by (simp add: DayFromYear_1970)
  with lo have "365 * (Y - 1970) \<le> d" by simp
  then have "Y - 1970 \<le> d div 365" using zdiv_mono1[of "365 * (Y - 1970)" d 365] by simp
  then have a: "Y \<le> 1970 + d div 365" by simp
  have b: "nat (1970 + d div 365 - Y) < nat (d div 365) + 1"
    using Y1970 a by simp
  show ?thesis using True yearSearch_eq[OF lo hi a b] by (simp add: YearFromDay_def)
next
  case False
  have Y1969: "Y \<le> 1969"
  proof (rule ccontr)
    assume "\<not> Y \<le> 1969"
    then have "1970 \<le> Y" by simp
    then have "DayFromYear 1970 \<le> DayFromYear Y" by (rule DayFromYear_mono)
    with lo False show False by (simp add: DayFromYear_1970)
  qed
  then have "Y + 1 \<le> 1970" by simp
  then have "DayFromYear (Y + 1) + 365 * (1970 - (Y + 1)) \<le> 0"
    using DayFromYear_diff_lower[of "Y + 1" 1970] by (simp add: DayFromYear_1970)
  with hi have "365 * (1969 - Y) \<le> - d" by simp
  then have "1969 - Y \<le> (- d) div 365" using zdiv_mono1[of "365 * (1969 - Y)" "- d" 365] by simp
  then have b: "nat (1969 - Y) < nat ((- d) div 365) + 1" by simp
  show ?thesis using False yearSearch_eq[OF lo hi Y1969 b] by (simp add: YearFromDay_def)
qed


lemma bracket_exists:
  "DayFromYear a \<le> d \<Longrightarrow> d < DayFromYear (a + int n) \<Longrightarrow>
   \<exists>Y. DayFromYear Y \<le> d \<and> d < DayFromYear (Y + 1)"
proof (induction n)
  case 0
  then show ?case by simp
next
  case (Suc n)
  show ?case
  proof (cases "d < DayFromYear (a + int n)")
    case True
    with Suc show ?thesis by blast
  next
    case False
    have "a + int (Suc n) = (a + int n) + 1" by simp
    with Suc.prems(2) have "d < DayFromYear ((a + int n) + 1)" by metis
    with False show ?thesis by (intro exI[of _ "a + int n"]) simp
  qed
qed

lemma year_exists: "\<exists>Y. DayFromYear Y \<le> d \<and> d < DayFromYear (Y + 1)"
proof (cases "0 \<le> d")
  case True
  let ?n = "nat (d div 365 + 1)"
  have "365 * (d div 365 + 1) \<le> DayFromYear (1970 + int ?n)"
    using DayFromYear_add_lower[of 1970 ?n] True by (simp add: DayFromYear_1970)
  moreover have "d < 365 * (d div 365 + 1)"
    using div_mult_mod_eq[of d 365] pos_mod_bound[of 365 d] by (simp add: algebra_simps)
  ultimately have "d < DayFromYear (1970 + int ?n)" by simp
  moreover have "DayFromYear 1970 \<le> d" using True by (simp add: DayFromYear_1970)
  ultimately show ?thesis by (rule bracket_exists[rotated])
next
  case False
  let ?n = "nat ((- d) div 365 + 1)"
  let ?a = "1970 - int ?n"
  have n: "int ?n = (- d) div 365 + 1" using False by simp
  have "DayFromYear ?a + 365 * int ?n \<le> DayFromYear (?a + int ?n)"
    by (rule DayFromYear_add_lower)
  then have "DayFromYear ?a \<le> - (365 * int ?n)" by (simp add: DayFromYear_1970)
  moreover have "- d < 365 * ((- d) div 365 + 1)"
    using div_mult_mod_eq[of "- d" 365] pos_mod_bound[of 365 "- d"] by (simp add: algebra_simps)
  ultimately have lo: "DayFromYear ?a \<le> d" using n by simp
  have "d < DayFromYear (?a + int ?n)" using False by (simp add: DayFromYear_1970)
  with lo show ?thesis by (rule bracket_exists)
qed

lemma YearFromDay_largest:
  "DayFromYear (YearFromDay d) \<le> d \<and> d < DayFromYear (YearFromDay d + 1)"
proof -
  obtain Y where Y: "DayFromYear Y \<le> d" "d < DayFromYear (Y + 1)"
    using year_exists[of d] by blast
  then have "YearFromDay d = Y" by (rule YearFromDay_eq)
  with Y show ?thesis by simp
qed

lemma month_cases:
  assumes "0 \<le> m" "m \<le> (11::int)"
  shows "m = 0 \<or> m = 1 \<or> m = 2 \<or> m = 3 \<or> m = 4 \<or> m = 5 \<or> m = 6 \<or> m = 7 \<or> m = 8 \<or> m = 9 \<or> m = 10 \<or> m = 11"
  using assms by arith

lemma DaysInYear_cases: "DaysInYear y = 365 \<or> DaysInYear y = 366"
  by (simp add: DaysInYear_def)

lemma day_in_year:
  assumes "0 \<le> k" "k < DaysInYear y" "Day t = DayFromYear y + k"
  shows "YearFromTime t = y" "DayWithinYear t = k"
proof -
  have "DayFromYear y \<le> Day t" "Day t < DayFromYear (y + 1)"
    using assms by (simp_all add: DayFromYear_Suc)
  then show y: "YearFromTime t = y" unfolding YearFromTime_def by (rule YearFromDay_eq)
  show "DayWithinYear t = k" using assms(3) by (simp add: DayWithinYear_def y)
qed

text \<open>
  \<open>MakeDay\<close> as the standard words it: a day whose year is \<open>year + floor(month / 12)\<close>,
  whose month is \<open>month mod 12\<close> and whose date is 1, moved by \<open>date - 1\<close> days.
\<close>

lemma MakeDay_first_of_month:
  assumes "Day t = MakeDay year month 1"
  shows "YearFromTime t = year + month div 12 \<and> MonthFromTime t = month mod 12 \<and>
         DateFromTime t = 1"
proof -
  define ym mn where "ym = year + month div 12" and "mn = month mod 12"
  define leap :: int where "leap = (if DaysInYear ym = 366 then 1 else 0)"
  have mn: "0 \<le> mn" "mn \<le> 11" by (simp_all add: mn_def) 
  have d: "Day t = DayFromYear ym + daysBeforeMonth leap mn"
    using assms by (simp add: MakeDay_def ym_def mn_def leap_def Let_def)
  have k: "0 \<le> daysBeforeMonth leap mn" "daysBeforeMonth leap mn < DaysInYear ym"
    using DaysInYear_cases[of ym] by (auto simp: daysBeforeMonth_def leap_def)
  have yr: "YearFromTime t = ym" and dw: "DayWithinYear t = daysBeforeMonth leap mn"
    using day_in_year[OF k d] by simp_all
  have lp: "InLeapYear t = leap" by (simp add: InLeapYear_def yr leap_def)
  have l01: "leap = 0 \<or> leap = 1" by (simp add: leap_def)
  have mo: "MonthFromTime t = mn"
    using month_cases[OF mn] l01
    by (elim disjE; simp add: MonthFromTime_def dw lp daysBeforeMonth_def Let_def)
  have "DateFromTime t = 1"
    using month_cases[OF mn] l01
    by (elim disjE; simp add: DateFromTime_def mo dw lp daysBeforeMonth_def Let_def)
  with yr mo show ?thesis by (simp add: ym_def mn_def)
qed

lemma MakeDay_last_day:
  assumes m: "0 \<le> m" "m \<le> 11"
  shows "\<exists>k. 0 \<le> k \<and> k < DaysInYear y \<and> MakeDay y (m + 1) 0 = DayFromYear y + k \<and>
             k = daysBeforeMonth (if DaysInYear y = 366 then 1 else 0) m + daysInMonth m y - 1"
proof (cases "m = 11")
  case True
  have "MakeDay y 12 0 = DayFromYear (y + 1) - 1"
    by (simp add: MakeDay_def daysBeforeMonth_def)
  then show ?thesis using True DaysInYear_cases[of y]
    by (auto simp: DayFromYear_Suc daysBeforeMonth_def daysInMonth_def)
next
  case False
  then have m10: "m \<le> 10" using m by simp
  have dm: "(m + 1) div 12 = 0" "(m + 1) mod 12 = m + 1" using m m10 by simp_all
  have md: "MakeDay y (m + 1) 0 = DayFromYear y + daysBeforeMonth (if DaysInYear y = 366 then 1 else 0) (m + 1) - 1"
    by (simp add: MakeDay_def dm)
  show ?thesis using month_cases[OF m] False DaysInYear_cases[of y]
    unfolding md
    by (auto simp: daysBeforeMonth_def daysInMonth_def)
qed

lemma last_day_fields:
  assumes m: "0 \<le> m" "m \<le> 11" and t: "Day t = MakeDay y (m + 1) 0"
  shows "YearFromTime t = y \<and> MonthFromTime t = m \<and> DateFromTime t = daysInMonth m y"
proof -
  obtain k where k: "0 \<le> k" "k < DaysInYear y" "MakeDay y (m + 1) 0 = DayFromYear y + k"
      "k = daysBeforeMonth (if DaysInYear y = 366 then 1 else 0) m + daysInMonth m y - 1"
    using MakeDay_last_day[OF m, of y] by blast
  have yr: "YearFromTime t = y" and dw: "DayWithinYear t = k"
    using day_in_year[OF k(1) k(2)] t k(3) by simp_all
  have leap: "InLeapYear t = (if DaysInYear y = 366 then 1 else 0)"
    by (simp add: InLeapYear_def yr)
  have mo: "MonthFromTime t = m"
    using month_cases[OF m] DaysInYear_cases[of y]
    by (auto simp: MonthFromTime_def dw leap k(4) daysBeforeMonth_def daysInMonth_def Let_def)
  have "DateFromTime t = daysInMonth m y"
    using month_cases[OF m] DaysInYear_cases[of y]
    by (auto simp: DateFromTime_def mo dw leap k(4) daysBeforeMonth_def daysInMonth_def Let_def)
  with yr mo show ?thesis by simp
qed

lemma daysInMonth_range: "28 \<le> daysInMonth m y \<and> daysInMonth m y \<le> 31"
  by (simp add: daysInMonth_def)

section \<open>The rows of a month\<close>

lemma daysInMonthOf_eq:
  assumes m: "0 \<le> m" "m \<le> 11" and y: "\<not> (0 \<le> y \<and> y \<le> 99)"
      and k: "keepsLocalDay host (MakeDay y (m + 1) 0)"
  shows "daysInMonthOf host m y = Some (daysInMonth m y)"
proof -
  let ?t = "UTC host (MakeDay y (m + 1) 0 * msPerDay)"
  have v: "TimeClip ?t = Some ?t" and d: "Day (LocalTime host ?t) = MakeDay y (m + 1) 0"
    using k by (simp_all add: keepsLocalDay_def TimeClip_def Let_def)
  have "(if 0 \<le> y \<and> y \<le> 99 then 1900 + y else y) = y" using y by auto
  then have "newDateYMD host y (m + 1) 0 = Some ?t"
    using v by (simp add: newDateYMD_def Let_def)
  then show ?thesis
    using last_day_fields[OF m d] by (simp add: daysInMonthOf_def getDate_def)
qed

lemma length_upto_1: "length [1..n] = nat n"
  by simp

lemma buildMonthRows_days_any_month:
  "\<exists>n. map day (buildMonthRows host rs month year) = map (\<lambda>i. padStart2 (toString i)) [1..n] \<and>
       map day (buildMonthRows host rs month year) = map day (buildMonthRows host [] month year)"
  by (cases "daysInMonthOf host month year")
     (auto simp: buildMonthRows_eq rowOf_def Let_def comp_def intro: exI[of _ 0])

lemma DayFromYear_min: "DayFromYear (- 271820) = - 99999744"
  by (simp add: DayFromYear_def)

lemma DayFromYear_max: "DayFromYear 275760 = 99999744"
  by (simp add: DayFromYear_def)

lemma fixedOffset_keepsLocalDay:
  assumes m: "0 \<le> m" "m \<le> 11" and y: "- 271820 \<le> y" "y \<le> 275759"
      and c: "\<And>t. tzaUTC host t = c" "\<And>t. tzaLocal host t = c" "\<bar>c\<bar> \<le> msPerDay"
  shows "keepsLocalDay host (MakeDay y (m + 1) 0)"
proof -
  obtain k where k: "0 \<le> k" "k < DaysInYear y" "MakeDay y (m + 1) 0 = DayFromYear y + k"
    using MakeDay_last_day[OF m, of y] by blast
  have lo: "- 99999744 \<le> DayFromYear y"
    using DayFromYear_mono[OF y(1)] by (simp add: DayFromYear_min)
  have "y + 1 \<le> 275760" using y by simp
  then have "DayFromYear (y + 1) \<le> 99999744"
    using DayFromYear_mono[of "y + 1" 275760] by (simp add: DayFromYear_max)
  then have hi: "DayFromYear y + k < 99999744"
    using k(2) by (simp add: DayFromYear_Suc)
  let ?d = "MakeDay y (m + 1) 0"
  have b: "- 99999744 \<le> ?d" "?d < 99999744" using lo hi k by simp_all
  have "\<bar>?d * msPerDay - c\<bar> \<le> 8640000000000000"
    using b c(3) by (simp add: msPerDay_def abs_le_iff)
  moreover have "Day (?d * msPerDay) = ?d" by (simp add: Day_def msPerDay_def)
  ultimately show ?thesis
    by (simp add: keepsLocalDay_def UTC_def LocalTime_def c Let_def)
qed

text \<open>
  C4. The claim: for every target month and year the row builder returns exactly
  \<open>daysInMonth(month, year)\<close> rows, 28 to 31 of them. The loop bound is
  \<open>new Date(targetYear, targetMonth + 1, 0).getDate()\<close>; a \<open>Date\<close> holds no instant
  beyond 8.64e15 ms from the epoch, so for the year 300000 the bound is \<open>NaN\<close>, the loop
  does not run and no row is returned.
\<close>

theorem C4_no_rows_beyond_date_range:
  "buildMonthRows utcHost [] 0 300000 = [] \<and> daysInMonth 0 300000 = 31"
  by (simp add: buildMonthRows_eq daysInMonthOf_def newDateYMD_def MakeDay_def DayFromYear_def
        daysBeforeMonth_def msPerDay_def UTC_def utcHost_def TimeClip_def getDate_def
        daysInMonth_def Let_def)

text \<open>
  C4, as the code has it: for a month 0 to 11 of a year outside 0 to 99, on a host that
  turns local midnight of the month's last day into a valid time value of that same local
  day (\<open>fixedOffset_keepsLocalDay\<close>: every fixed offset of at most a day, years -271820 to
  275759), the rows are exactly as many as the month has days, 28 to 31, and row number
  \<open>i\<close> carries the day \<open>i\<close>, in ascending order, whatever the records are. For any
  month and year the rows are numbered from 1 upwards and do not depend on the records
  (\<open>buildMonthRows_days_any_month\<close>). The years 0 to 99 and the hosts left out are the
  subject of \<open>two_digit_year_february\<close> and \<open>skipped_midnight_one_row\<close> below.
\<close>

theorem C4_rows_of_a_representable_month:
  assumes "0 \<le> month" "month \<le> 11" "\<not> (0 \<le> year \<and> year \<le> 99)"
      and "keepsLocalDay host (MakeDay year (month + 1) 0)"
  shows "length (buildMonthRows host rs month year) = nat (daysInMonth month year) \<and>
         map day (buildMonthRows host rs month year)
           = map (\<lambda>i. padStart2 (toString i)) [1..daysInMonth month year] \<and>
         28 \<le> daysInMonth month year \<and> daysInMonth month year \<le> 31"
  using daysInMonthOf_eq[OF assms] daysInMonth_range[of month year]
  by (simp add: buildMonthRows_eq rowOf_def Let_def comp_def)

theorem C4_witness:
  "length (buildMonthRows utcHost sampleRecords 1 2024) = 29 \<and>
   map day (buildMonthRows utcHost sampleRecords 1 2024)
     = map (\<lambda>i. padStart2 (toString i)) [1..29]"
proof -
  have k: "keepsLocalDay utcHost (MakeDay 2024 (1 + 1) 0)"
    by (rule fixedOffset_keepsLocalDay[where c = 0]) (simp_all add: utcHost_def msPerDay_def)
  have d: "daysInMonth 1 2024 = 29" by (simp add: daysInMonth_def DaysInYear_def)
  show ?thesis
    using C4_rows_of_a_representable_month[of 1 2024 utcHost sampleRecords] k d by simp
qed

text \<open>
  The \<open>Date\<close> constructor reads the years 0 to 99 as 1900 to 1999. For those target
  years the loop bound is the length of the month in the twentieth century, which differs
  from the month's own length for February of the year 0.
\<close>

lemma two_digit_year_february:
  "daysInMonthOf utcHost 1 0 = Some 28 \<and> daysInMonth 1 0 = 29"
  by code_simp

text \<open>
  Where the host's zone skips the last day of a month, local midnight of that day falls on
  the first of the next month and the loop bound is 1: December 1994 on the Line Islands.
\<close>

lemma skipped_midnight_one_row:
  "daysInMonthOf lineIslandsHost 11 1994 = Some 1 \<and> daysInMonth 11 1994 = 31 \<and>
   \<not> keepsLocalDay lineIslandsHost (MakeDay 1994 (11 + 1) 0)"
proof -
  have md: "MakeDay 1994 12 0 = 9130"
    by (simp add: MakeDay_def DayFromYear_def daysBeforeMonth_def DaysInYear_def)
  have u: "UTC lineIslandsHost (9130 * msPerDay) = 788868000000"
    by (simp add: UTC_def lineIslandsHost_def msPerDay_def)
  have l: "LocalTime lineIslandsHost 788868000000 = 788918400000"
    by (simp add: LocalTime_def lineIslandsHost_def)
  have d: "Day 788918400000 = DayFromYear 1995 + 0"
    by (simp add: Day_def msPerDay_def DayFromYear_def)
  have k: "(0::int) \<le> 0" "0 < DaysInYear 1995" by (simp_all add: DaysInYear_def)
  have y: "YearFromTime 788918400000 = 1995" and w: "DayWithinYear 788918400000 = 0"
    using day_in_year[OF k d] by simp_all
  have m: "MonthFromTime 788918400000 = 0" by (simp add: MonthFromTime_def w Let_def)
  have dt: "DateFromTime 788918400000 = 1" by (simp add: DateFromTime_def m w Let_def)
  have 1: "daysInMonthOf lineIslandsHost 11 1994 = Some 1"
    by (simp add: daysInMonthOf_def newDateYMD_def md u TimeClip_def getDate_def l dt Let_def)
  have 2: "\<not> keepsLocalDay lineIslandsHost (MakeDay 1994 (11 + 1) 0)"
    by (simp add: keepsLocalDay_def md u l Let_def) (simp add: Day_def msPerDay_def)
  show ?thesis using 1 2 by (simp add: daysInMonth_def)
qed

section \<open>The cells of a row\<close>







lemma digits_small: "n < 10 \<Longrightarrow> digits n = [digitChar n]"
  by (simp add: digits.simps)

lemma padStart2_two_digits:
  assumes "n < 100"
  shows "padStart2 (toString (int n)) = [digitChar (n div 10), digitChar (n mod 10)]"
proof (cases "n < 10")
  case True
  then show ?thesis by (simp add: padStart2_def toString_def digits_small digitChar_def)
next
  case False
  then have "n div 10 < 10" using assms by simp
  then have "digits n = [digitChar (n div 10), digitChar (n mod 10)]"
    using False by (simp add: digits.simps[of n] digits_small)
  then show ?thesis by (simp add: padStart2_def toString_def)
qed

lemma padStart2_int:
  assumes "0 \<le> x" "x < 100"
  shows "padStart2 (toString x) = [digitChar (nat x div 10), digitChar (nat x mod 10)]"
proof -
  have "nat x < 100" "int (nat x) = x" using assms by simp_all
  then show ?thesis using padStart2_two_digits[of "nat x"] by simp
qed

lemma hhmm_shape:
  assumes "\<bar>t\<bar> \<le> 8640000000000000"
  shows "\<exists>a b c d. a < 10 \<and> b < 10 \<and> c < 10 \<and> d < 10 \<and>
          toLocaleTimeString_ptBR host (newDate t)
            = [digitChar a, digitChar b, CHR '':'', digitChar c, digitChar d] \<and>
          int (10 * a + b) = HourFromTime (LocalTime host t) \<and>
          int (10 * c + d) = MinFromTime (LocalTime host t)"
proof -
  define H M where "H = HourFromTime (LocalTime host t)" and "M = MinFromTime (LocalTime host t)"
  have h: "0 \<le> H" "H < 100" "H < 24" by (simp_all add: H_def HourFromTime_def)
  have m: "0 \<le> M" "M < 100" "M < 60" by (simp_all add: M_def MinFromTime_def)
  have "toLocaleTimeString_ptBR host (newDate t) = padStart2 (toString H) @ '':'' @ padStart2 (toString M)"
    using assms by (simp add: toLocaleTimeString_ptBR_def newDate_def TimeClip_def Let_def H_def M_def)
  then have e: "toLocaleTimeString_ptBR host (newDate t)
          = [digitChar (nat H div 10), digitChar (nat H mod 10), CHR '':'',
             digitChar (nat M div 10), digitChar (nat M mod 10)]"
    by (simp add: padStart2_int[OF h(1,2)] padStart2_int[OF m(1,2)])
  have b: "nat H div 10 < 10" "nat M div 10 < 10" "nat H mod 10 < 10" "nat M mod 10 < 10"
    using h m by simp_all
  have v: "int (10 * (nat H div 10) + nat H mod 10) = H" "int (10 * (nat M div 10) + nat M mod 10) = M"
    using h(1) m(1) by simp_all
  show ?thesis
    using e b v unfolding H_def M_def by blast
qed

section \<open>The groups of the monthly aggregator\<close>

lemma pushDay_dayKey:
  "pushDay host days r =
     map (\<lambda>(k, g). if k = dayKey host r then (k, g @ [r]) else (k, g))
         (if map_of days (dayKey host r) = None then days @ [(dayKey host r, [])] else days)"
  by (simp add: pushDay_def dayKey_def Let_def)

lemma pushDay_step:
  assumes "kr = dayKey host r" "kr \<notin> set keys \<Longrightarrow> G kr = []"
  shows "pushDay host (map (\<lambda>k. (k, G k)) keys) r =
           map (\<lambda>k. (k, G k @ (if dayKey host r = k then [r] else [])))
               (if kr \<in> set keys then keys else keys @ [kr])"
proof -
  have n: "map_of (map (\<lambda>k. (k, G k)) keys) kr = None \<longleftrightarrow> kr \<notin> set keys"
    by (simp add: map_of_eq_None_iff image_image)
  show ?thesis
  proof (cases "kr \<in> set keys")
    case True
    then show ?thesis using n assms(1)
      by (auto simp: pushDay_dayKey)
  next
    case False
    then show ?thesis using n assms
      by (auto simp: pushDay_dayKey)
  qed
qed

lemma groupByDayKey_snoc:
  "groupByDayKey host (ms @ [r]) = pushDay host (groupByDayKey host ms) r"
  by (simp add: groupByDayKey_def)

lemma groupByDayKey_char:
  "\<exists>keys. distinct keys \<and> set keys = dayKey host ` set ms \<and>
          groupByDayKey host ms = map (\<lambda>k. (k, filter (\<lambda>r. dayKey host r = k) ms)) keys"
proof (induction ms rule: rev_induct)
  case Nil
  show ?case by (intro exI[of _ "[]"]) (simp add: groupByDayKey_def)
next
  case (snoc r ms)
  then obtain keys where keys: "distinct keys" "set keys = dayKey host ` set ms"
      "groupByDayKey host ms = map (\<lambda>k. (k, filter (\<lambda>r. dayKey host r = k) ms)) keys"
    by blast
  let ?kr = "dayKey host r"
  let ?keys' = "if ?kr \<in> set keys then keys else keys @ [?kr]"
  have e: "?kr \<notin> set keys \<Longrightarrow> filter (\<lambda>x. dayKey host x = ?kr) ms = []"
    using keys(2) by (auto simp: filter_empty_conv) (metis imageI)
  have "groupByDayKey host (ms @ [r]) =
          map (\<lambda>k. (k, filter (\<lambda>x. dayKey host x = k) ms @ (if dayKey host r = k then [r] else []))) ?keys'"
    unfolding groupByDayKey_snoc keys(3)
    using pushDay_step[of ?kr host r keys "\<lambda>k. filter (\<lambda>x. dayKey host x = k) ms"] e
    by simp
  then have "groupByDayKey host (ms @ [r]) =
          map (\<lambda>k. (k, filter (\<lambda>x. dayKey host x = k) (ms @ [r]))) ?keys'"
    by simp
  moreover have "distinct ?keys'" using keys(1) by simp
  moreover have "set ?keys' = dayKey host ` set (ms @ [r])" using keys(2) by auto
  ultimately show ?case by blast
qed

lemma inTargetMonth_valid:
  assumes "inTargetMonth host tm ty r"
  shows "newDate (timestamp r) = Some (timestamp r)"
proof (cases "newDate (timestamp r)")
  case None
  with assms show ?thesis by (simp add: inTargetMonth_def getMonth_def strictEq_def Let_def)
next
  case (Some t)
  then show ?thesis by (simp add: newDate_def TimeClip_def split: if_splits)
qed

lemma inTargetMonth_iff:
  "inTargetMonth host (getMonth host ref) (getFullYear host ref) r = inLocalMonthOf host ref r"
  by (cases ref; cases "newDate (timestamp r)")
     (auto simp: inTargetMonth_def inLocalMonthOf_def strictEq_def getMonth_def getFullYear_def
                 localDate_def Let_def)

lemma monthRecordsOf_local: "monthRecordsOf host rs ref = filter (inLocalMonthOf host ref) rs"
  unfolding monthRecordsOf_def by (rule filter_cong) (simp_all add: inTargetMonth_iff)


lemma dayKey_month:
  assumes "r \<in> set (monthRecordsOf host rs ref)"
  shows "dayKey host r = dateText host (localDate host (timestamp r))"
proof -
  have "inTargetMonth host (getMonth host ref) (getFullYear host ref) r"
    using assms by (simp add: monthRecordsOf_def)
  then have "newDate (timestamp r) = Some (timestamp r)" by (rule inTargetMonth_valid)
  then show ?thesis
    by (simp add: dayKey_def toLocaleDateString_def dateText_def localDate_def Let_def)
qed

lemma sameGroup_iff_key:
  assumes "r1 \<in> set ms" "r2 \<in> set ms"
  shows "sameGroup (groupByDayKey host ms) r1 r2 \<longleftrightarrow> dayKey host r1 = dayKey host r2"
proof -
  obtain keys where keys: "set keys = dayKey host ` set ms"
      "groupByDayKey host ms = map (\<lambda>k. (k, filter (\<lambda>r. dayKey host r = k) ms)) keys"
    using groupByDayKey_char[of host ms] by blast
  have "sameGroup (groupByDayKey host ms) r1 r2 \<longleftrightarrow>
          (\<exists>k\<in>set keys. dayKey host r1 = k \<and> dayKey host r2 = k)"
    using assms by (auto simp: sameGroup_def keys(2) list_ex_iff)
  also have "\<dots> \<longleftrightarrow> dayKey host r1 = dayKey host r2"
    using assms(1) keys(1) by auto
  finally show ?thesis .
qed

lemma same_local_day_same_group:
  assumes "r1 \<in> set (monthRecordsOf host rs ref)" "r2 \<in> set (monthRecordsOf host rs ref)"
      and "localDate host (timestamp r1) = localDate host (timestamp r2)"
  shows "sameGroup (groupByDayKey host (monthRecordsOf host rs ref)) r1 r2"
  using assms by (simp add: sameGroup_iff_key dayKey_month)

section \<open>Sums over the groups\<close>

lemma addDay_fields:
  "mTotalWorked (addDay acc s) = mTotalWorked acc + total s"
  "mTotalBreak (addDay acc s) = mTotalBreak acc + break s"
  "mDaysWorkedCount (addDay acc s) = mDaysWorkedCount acc + (if 0 < total s then 1 else 0)"
  by (simp_all add: addDay_def)

lemma foldl_addDay:
  "foldl addDay acc stats =
     \<lparr>mTotalWorked = mTotalWorked acc + sum_list (map total stats),
      mTotalBreak = mTotalBreak acc + sum_list (map break stats),
      mDaysWorkedCount = mDaysWorkedCount acc + length (filter (\<lambda>s. 0 < total s) stats)\<rparr>"
proof (induction stats arbitrary: acc)
  case Nil
  show ?case by simp
next
  case (Cons s stats)
  have "foldl addDay acc (s # stats) = foldl addDay (addDay acc s) stats" by simp
  also have "\<dots> = \<lparr>mTotalWorked = mTotalWorked (addDay acc s) + sum_list (map total stats),
      mTotalBreak = mTotalBreak (addDay acc s) + sum_list (map break stats),
      mDaysWorkedCount = mDaysWorkedCount (addDay acc s) + length (filter (\<lambda>s. 0 < total s) stats)\<rparr>"
    by (rule Cons.IH)
  also have "\<dots> = \<lparr>mTotalWorked = mTotalWorked acc + sum_list (map total (s # stats)),
      mTotalBreak = mTotalBreak acc + sum_list (map break (s # stats)),
      mDaysWorkedCount = mDaysWorkedCount acc + length (filter (\<lambda>s. 0 < total s) (s # stats))\<rparr>"
    by (simp add: addDay_fields)
  finally show ?case .
qed

lemma group_of_date:
  assumes "datesDistinguished host ms" "\<forall>r\<in>set ms. dayKey host r = dateText host (localDate host (timestamp r))"
      and "d \<in> localDate host ` timestamp ` set ms"
  shows "filter (\<lambda>r. dayKey host r = dateText host d) ms = recordsOn host ms d"
  unfolding recordsOn_def
proof (rule filter_cong[OF refl])
  fix r assume r: "r \<in> set ms"
  then have "localDate host (timestamp r) \<in> localDate host ` timestamp ` set ms" by auto
  then have "dateText host (localDate host (timestamp r)) = dateText host d
             \<longleftrightarrow> localDate host (timestamp r) = d"
    using assms(1,3) unfolding datesDistinguished_def by (auto dest: inj_onD)
  then show "(dayKey host r = dateText host d) = (localDate host (timestamp r) = d)"
    using assms(2) r by simp
qed

lemma sum_over_groups:
  assumes inj: "datesDistinguished host ms"
      and key: "\<forall>r\<in>set ms. dayKey host r = dateText host (localDate host (timestamp r))"
  shows "sum_list (map (\<lambda>g. f (computeDaily g)) (map snd (groupByDayKey host ms)))
           = (\<Sum>d\<in>localDate host ` timestamp ` set ms. f (computeDaily (recordsOn host ms d)))"
proof -
  let ?G = "\<lambda>k. filter (\<lambda>r. dayKey host r = k) ms"
  let ?D = "localDate host ` timestamp ` set ms"
  obtain keys where keys: "distinct keys" "set keys = dayKey host ` set ms"
      "groupByDayKey host ms = map (\<lambda>k. (k, ?G k)) keys"
    using groupByDayKey_char[of host ms] by blast
  have sk: "set keys = dateText host ` ?D"
    using key by (auto simp: keys(2) image_iff) 
  have "sum_list (map (\<lambda>g. f (computeDaily g)) (map snd (groupByDayKey host ms)))
          = sum_list (map (\<lambda>k. f (computeDaily (?G k))) keys)"
    by (simp add: keys(3) comp_def)
  also have "\<dots> = (\<Sum>k\<in>set keys. f (computeDaily (?G k)))"
    using keys(1) by (simp add: sum_list_distinct_conv_sum_set)
  also have "\<dots> = (\<Sum>d\<in>?D. f (computeDaily (?G (dateText host d))))"
    unfolding sk using inj unfolding datesDistinguished_def by (simp add: sum.reindex)
  also have "\<dots> = (\<Sum>d\<in>?D. f (computeDaily (recordsOn host ms d)))"
    by (rule sum.cong[OF refl]) (simp add: group_of_date[OF inj key])
  finally show ?thesis .
qed

lemma count_over_groups:
  assumes inj: "datesDistinguished host ms"
      and key: "\<forall>r\<in>set ms. dayKey host r = dateText host (localDate host (timestamp r))"
  shows "length (filter (\<lambda>s. 0 < total s) (map computeDaily (map snd (groupByDayKey host ms))))
           = card {d \<in> localDate host ` timestamp ` set ms. 0 < total (computeDaily (recordsOn host ms d))}"
proof -
  let ?G = "\<lambda>k. filter (\<lambda>r. dayKey host r = k) ms"
  let ?D = "localDate host ` timestamp ` set ms"
  let ?P = "\<lambda>k. 0 < total (computeDaily (?G k))"
  obtain keys where keys: "distinct keys" "set keys = dayKey host ` set ms"
      "groupByDayKey host ms = map (\<lambda>k. (k, ?G k)) keys"
    using groupByDayKey_char[of host ms] by blast
  have sk: "set keys = dateText host ` ?D"
    using key by (auto simp: keys(2) image_iff)
  have "length (filter (\<lambda>s. 0 < total s) (map computeDaily (map snd (groupByDayKey host ms))))
          = length (filter ?P keys)"
    by (simp add: keys(3) filter_map comp_def)
  also have "\<dots> = card {k \<in> set keys. ?P k}"
    using keys(1) by (simp add: distinct_length_filter Int_def conj_commute)
  also have "{k \<in> set keys. ?P k} = dateText host ` {d \<in> ?D. ?P (dateText host d)}"
    unfolding sk by auto
  also have "card \<dots> = card {d \<in> ?D. ?P (dateText host d)}"
  proof (rule card_image)
    show "inj_on (dateText host) {d \<in> ?D. ?P (dateText host d)}"
      using inj unfolding datesDistinguished_def by (rule inj_on_subset) auto
  qed
  also have "{d \<in> ?D. ?P (dateText host d)}
             = {d \<in> ?D. 0 < total (computeDaily (recordsOn host ms d))}"
    by (intro Collect_cong conj_cong refl) (simp add: group_of_date[OF inj key])
  finally show ?thesis .
qed

lemma balance_over_worked_days:
  fixes worked :: "'a \<Rightarrow> rat"
  assumes "finite D" "\<forall>d\<in>D. 0 \<le> worked d"
  shows "sum worked D - of_nat (card {d \<in> D. 0 < worked d}) * w
           = (\<Sum>d\<in>D. if 0 < worked d then worked d - w else 0)"
proof -
  have z: "\<not> 0 < worked d \<Longrightarrow> worked d = 0" if "d \<in> D" for d
    using assms(2) that by force
  have c: "(\<Sum>d\<in>D. if 0 < worked d then w else 0) = of_nat (card {d \<in> D. 0 < worked d}) * w"
  proof -
    have a: "(\<Sum>d\<in>{d \<in> D. 0 < worked d}. w) = (\<Sum>d\<in>D. if 0 < worked d then w else 0)"
      using assms(1) by (rule sum.inter_filter)
    have b: "(\<Sum>d\<in>{d \<in> D. 0 < worked d}. w) = of_nat (card {d \<in> D. 0 < worked d}) * w"
      by (simp only: sum_constant)
    show ?thesis by (rule trans[OF a[symmetric] b])
  qed
  have "(\<Sum>d\<in>D. if 0 < worked d then worked d - w else 0)
          = (\<Sum>d\<in>D. worked d - (if 0 < worked d then w else 0))"
    by (rule sum.cong[OF refl]) (simp add: z)
  also have "\<dots> = sum worked D - (\<Sum>d\<in>D. if 0 < worked d then w else 0)"
    by (simp add: sum_subtractf)
  finally show ?thesis by (simp add: c)
qed

section \<open>Sample computations\<close>

text \<open>Local dates in November 2023, whose first day is day 19662 of the epoch.\<close>

lemma november_2023:
  assumes "LocalTime host t div 86400000 = 19358 + k" "304 \<le> k" "k < 334"
  shows "localDate host t = (2023, 10, k - 303)"
proof -
  have l: "DaysInYear 2023 = 365" by (simp add: DaysInYear_def)
  have d: "Day (LocalTime host t) = DayFromYear 2023 + k"
    using assms(1) by (simp add: Day_def msPerDay_def DayFromYear_def)
  have k: "0 \<le> k" "k < DaysInYear 2023" using assms(2,3) by (simp_all add: l)
  have y: "YearFromTime (LocalTime host t) = 2023" and w: "DayWithinYear (LocalTime host t) = k"
    using day_in_year[OF k d] by simp_all
  have i: "InLeapYear (LocalTime host t) = 0" by (simp add: InLeapYear_def y l)
  have m: "MonthFromTime (LocalTime host t) = 10"
    using assms(2,3) by (simp add: MonthFromTime_def w i Let_def)
  have "DateFromTime (LocalTime host t) = k - 303"
    by (simp add: DateFromTime_def m w i Let_def)
  with y m show ?thesis by (simp add: localDate_def Let_def)
qed

lemma inTargetMonth_localDate:
  assumes "\<bar>timestamp r\<bar> \<le> 8640000000000000" "\<bar>t\<bar> \<le> 8640000000000000"
      and "localDate host (timestamp r) = (y, m, d)" "localDate host t = (y, m, d')"
  shows "inTargetMonth host (getMonth host (newDate t)) (getFullYear host (newDate t)) r"
  using assms
  by (simp add: inTargetMonth_def newDate_def TimeClip_def getMonth_def getFullYear_def
        strictEq_def localDate_def Let_def)


subsection \<open>The sample month on a UTC host\<close>

lemma sample_dates:
  "localDate utcHost 1700470800000 = (2023, 10, 20)"
  "localDate utcHost 1700154000000 = (2023, 10, 16)"
  "localDate utcHost 1700139600000 = (2023, 10, 16)"
  "localDate utcHost 1700125200000 = (2023, 10, 16)"
  "localDate utcHost 1700067600000 = (2023, 10, 15)"
  "localDate utcHost 1700038800000 = (2023, 10, 15)"
  "localDate utcHost 1700000000000 = (2023, 10, 14)"
  using november_2023[of utcHost 1700470800000 323]
        november_2023[of utcHost 1700154000000 319] november_2023[of utcHost 1700139600000 319]
        november_2023[of utcHost 1700125200000 319] november_2023[of utcHost 1700067600000 318]
        november_2023[of utcHost 1700038800000 318] november_2023[of utcHost 1700000000000 317]
  by (simp_all add: LocalTime_def utcHost_def)

lemma sample_month:
  "monthRecordsOf utcHost sampleRecords (newDate 1700000000000) = sampleRecords"
  unfolding monthRecordsOf_def sampleRecords_def
  by (simp add: inTargetMonth_localDate[where y = 2023 and m = 10] sample_dates punch_def)

lemma sample_texts:
  "dateText utcHost (2023, 10, 20) = ''11/20/2023''"
  "dateText utcHost (2023, 10, 16) = ''11/16/2023''"
  "dateText utcHost (2023, 10, 15) = ''11/15/2023''"
  by code_simp+

lemma sample_distinguished: "datesDistinguished utcHost sampleRecords"
  by (simp add: datesDistinguished_def sampleRecords_def punch_def sample_dates sample_texts)

lemma sample_keys:
  "r \<in> set sampleRecords \<Longrightarrow> dayKey utcHost r = dateText utcHost (localDate utcHost (timestamp r))"
  using dayKey_month[of r utcHost sampleRecords "newDate 1700000000000"] by (simp add: sample_month)

lemma sample_groups:
  "groupByDayKey utcHost sampleRecords =
     [(''11/20/2023'', [punch ''f'' 1700470800000 ENTRY]),
      (''11/16/2023'', [punch ''e'' 1700154000000 EXIT, punch ''d'' 1700139600000 BREAK_START,
                        punch ''c'' 1700125200000 ENTRY]),
      (''11/15/2023'', [punch ''b'' 1700067600000 EXIT, punch ''a'' 1700038800000 ENTRY])]"
proof -
  have k: "dayKey utcHost (punch ''f'' 1700470800000 ENTRY) = ''11/20/2023''"
          "dayKey utcHost (punch ''e'' 1700154000000 EXIT) = ''11/16/2023''"
          "dayKey utcHost (punch ''d'' 1700139600000 BREAK_START) = ''11/16/2023''"
          "dayKey utcHost (punch ''c'' 1700125200000 ENTRY) = ''11/16/2023''"
          "dayKey utcHost (punch ''b'' 1700067600000 EXIT) = ''11/15/2023''"
          "dayKey utcHost (punch ''a'' 1700038800000 ENTRY) = ''11/15/2023''"
    by (simp_all add: sample_keys sampleRecords_def) (simp_all add: punch_def sample_dates sample_texts)
  show ?thesis
    by (simp add: groupByDayKey_def sampleRecords_def pushDay_dayKey k)
qed

lemma sample_daily:
  "computeDaily [punch ''f'' 1700470800000 ENTRY] = \<lparr>total = 0, break = 0\<rparr>"
  "computeDaily [punch ''e'' 1700154000000 EXIT, punch ''d'' 1700139600000 BREAK_START,
                 punch ''c'' 1700125200000 ENTRY] = \<lparr>total = 240, break = 0\<rparr>"
  "computeDaily [punch ''b'' 1700067600000 EXIT, punch ''a'' 1700038800000 ENTRY]
     = \<lparr>total = 480, break = 0\<rparr>"
  by (simp_all add: computeDaily_eq punch_def dailyResult_def dailyInit_def truthy_def
        minutesBetween_def Let_def)

lemma sample_monthly:
  "computeMonthly utcHost sampleRecords (newDate 1700000000000) 480
     = \<lparr>totalWorked = 720, totalBreak = 0, balance = - 240, daysWorkedCount = 2\<rparr>"
  by (simp add: computeMonthly_eq monthlyOf_def sample_month sample_groups sample_daily
        addDay_def monthInit_def Let_def)

subsection \<open>The day with a duplicate ENTRY\<close>







subsection \<open>The punches around a local midnight\<close>





section \<open>The claims on rows, groups and monthly totals\<close>





text \<open>
  C2. The monthly aggregator returns what the specification describes
  (\<open>monthlyByLocalDay\<close>): over the records of the target local month and year, grouped by
  local calendar day, the sum of the daily totals, the sum of the daily breaks, the number
  of days whose total is greater than zero, and the balance
  \<open>totalWorked - daysWorkedCount * dailyTarget\<close>. The balance is the sum, over the days
  with a positive total, of that total minus the target, so a day without worked time adds
  nothing to it. The host's date text is assumed to distinguish the days at hand. The
  sample month has three days with punches, one of them with a lone ENTRY: two days are
  counted and the balance is 720 minus twice the target.
\<close>

theorem C2_monthly_totals_by_local_day:
  assumes "datesDistinguished host (monthRecordsOf host rs referenceDate)"
  shows "computeMonthly host rs referenceDate dailyTarget
           = monthlyByLocalDay host rs referenceDate dailyTarget \<and>
         balance (computeMonthly host rs referenceDate dailyTarget)
           = (\<Sum>d\<in>localDate host ` timestamp ` set (monthRecordsOf host rs referenceDate).
                if 0 < total (computeDaily (recordsOn host (monthRecordsOf host rs referenceDate) d))
                then total (computeDaily (recordsOn host (monthRecordsOf host rs referenceDate) d)) - dailyTarget
                else 0)"
proof -
  let ?ms = "monthRecordsOf host rs referenceDate"
  let ?D = "localDate host ` timestamp ` set ?ms"
  let ?worked = "\<lambda>d. total (computeDaily (recordsOn host ?ms d))"
  have key: "\<forall>r\<in>set ?ms. dayKey host r = dateText host (localDate host (timestamp r))"
    by (simp add: dayKey_month)
  let ?stats = "map computeDaily (map snd (groupByDayKey host ?ms))"
  have w: "sum_list (map total ?stats) = sum ?worked ?D"
    using sum_over_groups[OF assms key, of total] by (simp add: comp_def)
  have b: "sum_list (map break ?stats) = (\<Sum>d\<in>?D. break (computeDaily (recordsOn host ?ms d)))"
    using sum_over_groups[OF assms key, of break] by (simp add: comp_def)
  have n: "length (filter (\<lambda>s. 0 < total s) ?stats) = card {d \<in> ?D. 0 < ?worked d}"
    by (rule count_over_groups[OF assms key])
  have acc: "foldl addDay monthInit ?stats =
      \<lparr>mTotalWorked = sum ?worked ?D,
       mTotalBreak = (\<Sum>d\<in>?D. break (computeDaily (recordsOn host ?ms d))),
       mDaysWorkedCount = card {d \<in> ?D. 0 < ?worked d}\<rparr>"
    by (simp only: foldl_addDay w b n) (simp add: monthInit_def)
  have "monthlyOf host rs referenceDate dailyTarget =
      (let acc = foldl addDay monthInit ?stats
       in \<lparr>totalWorked = mTotalWorked acc, totalBreak = mTotalBreak acc,
            balance = mTotalWorked acc - of_nat (mDaysWorkedCount acc) * dailyTarget,
            daysWorkedCount = mDaysWorkedCount acc\<rparr>)"
    by (simp add: monthlyOf_def Let_def)
  then have 1: "computeMonthly host rs referenceDate dailyTarget
           = monthlyByLocalDay host rs referenceDate dailyTarget"
    by (simp only: computeMonthly_eq acc)
       (simp add: monthlyByLocalDay_def monthRecordsOf_local[symmetric] Let_def)
  have "balance (monthlyByLocalDay host rs referenceDate dailyTarget)
        = sum ?worked ?D - of_nat (card {d \<in> ?D. 0 < ?worked d}) * dailyTarget"
    by (simp add: monthlyByLocalDay_def monthRecordsOf_local[symmetric] Let_def)
  also have "\<dots> = (\<Sum>d\<in>?D. if 0 < ?worked d then ?worked d - dailyTarget else 0)"
    by (rule balance_over_worked_days) (simp_all add: computeDaily_nonneg)
  finally show ?thesis using 1 by simp
qed

theorem C2_witness:
  "monthlyByLocalDay utcHost sampleRecords (newDate 1700000000000) 480
     = \<lparr>totalWorked = 720, totalBreak = 0, balance = - 240, daysWorkedCount = 2\<rparr> \<and>
   computeMonthly utcHost sampleRecords (newDate 1700000000000) 480
     = \<lparr>totalWorked = 720, totalBreak = 0, balance = - 240, daysWorkedCount = 2\<rparr>"
proof -
  have d: "datesDistinguished utcHost (monthRecordsOf utcHost sampleRecords (newDate 1700000000000))"
    by (simp add: sample_month sample_distinguished)
  show ?thesis
    using C2_monthly_totals_by_local_day[OF d, of 480] sample_monthly by simp
qed

end
